theory Spec2Isabelle
  imports Complex_Main "HOL-Library.Multiset" "HOL-Library.Sublist"
begin

section \<open>Python values used by the two predictors\<close>

text \<open>
  The two source files \<^verbatim>\<open>app.py\<close> (class \<^verbatim>\<open>TamilPagePredictor\<close>, ranking by
  embedding similarity) and \<^verbatim>\<open>app_simple.py\<close> (class \<^verbatim>\<open>SimpleTamilPagePredictor\<close>,
  ranking by substring overlap) are embedded as HOL functions. Exceptions are values of
  \<open>py_error + 'a\<close>, dictionaries are association lists in insertion order (the order
  Python iterates them in), and a method is a function of the object's state.
\<close>

datatype py_error = KeyError | IndexError | ValueError

subsection \<open>Strings\<close>

text \<open>
  A Python \<^verbatim>\<open>str\<close> is modelled as a \<open>string\<close>. \<open>lower\<close> and \<open>split\<close> are the
  built-ins \<^verbatim>\<open>str.lower()\<close> and \<^verbatim>\<open>str.split()\<close> on ASCII text: letters A to Z are
  folded, and the separators are the ASCII characters for which \<^verbatim>\<open>str.isspace\<close> holds.
  Outside ASCII the built-ins do more (they also split at U+0085, U+00A0, U+2000 and other
  Unicode separators and fold non-ASCII cased letters; Tamil letters have no case), which
  these two definitions do not follow. The general theorems below never unfold them: they
  speak of \<open>split (lower q)\<close> as the list of query words, whatever it is, and of
  \<open>lower k\<close> as the folded keyword. Only the instances on sample data, all ASCII,
  evaluate them. \<open>str_in w s\<close> is Python's \<^verbatim>\<open>w in s\<close>.
\<close>

definition isspace :: "char \<Rightarrow> bool" where
  "isspace c = (let n = (of_char c :: nat) in (9 \<le> n \<and> n \<le> 13) \<or> (28 \<le> n \<and> n \<le> 32))"

definition lower_char :: "char \<Rightarrow> char" where
  "lower_char c = (let n = (of_char c :: nat) in if 65 \<le> n \<and> n \<le> 90 then char_of (n + 32) else c)"

definition lower :: "string \<Rightarrow> string" where
  "lower s = map lower_char s"

fun split_from :: "string \<Rightarrow> string \<Rightarrow> string list" where
  "split_from w [] = (if w = [] then [] else [w])"
| "split_from w (c # cs) =
     (if isspace c then (if w = [] then split_from [] cs else w # split_from [] cs)
      else split_from (w @ [c]) cs)"

definition split :: "string \<Rightarrow> string list" where
  "split s = split_from [] s"

fun startswith :: "string \<Rightarrow> string \<Rightarrow> bool" where
  "startswith s [] = True"
| "startswith [] (c # w) = False"
| "startswith (d # s) (c # w) = (d = c \<and> startswith s w)"

fun str_in :: "string \<Rightarrow> string \<Rightarrow> bool" where
  "str_in w [] = (w = [])"
| "str_in w (c # s) = (startswith (c # s) w \<or> str_in w s)"

subsection \<open>Dictionaries and lists\<close>

text \<open>
  \<open>dict_set k v d\<close> is \<^verbatim>\<open>d[k] = v\<close>: an existing key keeps its position, a new key goes
  to the end. A lookup is \<open>map_of\<close>; \<^verbatim>\<open>d[k]\<close> on a missing key raises \<^verbatim>\<open>KeyError\<close>.
\<close>

type_synonym ('k, 'v) dict = "('k \<times> 'v) list"

fun dict_set :: "'k \<Rightarrow> 'v \<Rightarrow> ('k, 'v) dict \<Rightarrow> ('k, 'v) dict" where
  "dict_set k v [] = [(k, v)]"
| "dict_set k v (p # ps) = (if fst p = k then (k, v) # ps else p # dict_set k v ps)"

definition dict_get :: "('k, 'v) dict \<Rightarrow> 'k \<Rightarrow> py_error + 'v" where
  "dict_get d k = (case map_of d k of None \<Rightarrow> Inl KeyError | Some v \<Rightarrow> Inr v)"

definition list_get :: "'a list \<Rightarrow> nat \<Rightarrow> py_error + 'a" where
  "list_get xs i = (if i < length xs then Inr (xs ! i) else Inl IndexError)"

text \<open>A \<^verbatim>\<open>for\<close> loop that appends one value per element and stops at the first raise.\<close>

fun for_each :: "('a \<Rightarrow> py_error + 'b) \<Rightarrow> 'a list \<Rightarrow> py_error + 'b list" where
  "for_each f [] = Inr []"
| "for_each f (x # xs) =
     (case f x of Inl e \<Rightarrow> Inl e
      | Inr y \<Rightarrow> (case for_each f xs of Inl e \<Rightarrow> Inl e | Inr ys \<Rightarrow> Inr (y # ys)))"

section \<open>The catalog\<close>

text \<open>
  The knowledge base is the \<^verbatim>\<open>features\<close> list of the JSON document. A feature is a JSON
  object; a key that is absent is \<open>None\<close>. The field \<^verbatim>\<open>action_message\<close> is read by
  neither predictor; the key \<^verbatim>\<open>keywords\<close> is the field \<open>keywords_list\<close>.
\<close>

record feature =
  page_name :: "string option"
  keywords_list :: "string list option"
  description :: "string option"

record 's match_result =
  res_page_name :: string
  res_keyword :: string
  similarity_score :: 's
  res_description :: string

record predictor =
  knowledge_base :: "feature list"

fun get_page_description :: "feature list \<Rightarrow> string \<Rightarrow> py_error + string" where
  "get_page_description [] name = Inr ''''"
| "get_page_description (f # fs) name =
     (case page_name f of None \<Rightarrow> Inl KeyError
      | Some n \<Rightarrow>
          if n = name then Inr (case description f of None \<Rightarrow> '''' | Some d \<Rightarrow> d)
          else get_page_description fs name)"

section \<open>The lexical matcher: \<^verbatim>\<open>SimpleTamilPagePredictor\<close>\<close>

record SimpleTamilPagePredictor = predictor +
  keyword_to_page :: "(string, string list) dict"
  page_keywords :: "(string, string list) dict"

subsection \<open>\<^verbatim>\<open>prepare_keyword_index\<close>\<close>

fun add_keywords :: "string \<Rightarrow> string list \<Rightarrow> (string, string list) dict \<Rightarrow> (string, string list) dict" where
  "add_keywords name [] k2p = k2p"
| "add_keywords name (keyword # rest) k2p =
     add_keywords name rest
       (dict_set keyword ((case map_of k2p keyword of None \<Rightarrow> [] | Some pages \<Rightarrow> pages) @ [name]) k2p)"

fun index_features ::
  "feature list \<Rightarrow> (string, string list) dict \<times> (string, string list) dict \<Rightarrow>
   py_error + (string, string list) dict \<times> (string, string list) dict" where
  "index_features [] (k2p, pk) = Inr (k2p, pk)"
| "index_features (f # fs) (k2p, pk) =
     (case page_name f of None \<Rightarrow> Inl KeyError
      | Some name \<Rightarrow>
          (case keywords_list f of None \<Rightarrow> Inl KeyError
           | Some kws \<Rightarrow> index_features fs (add_keywords name kws k2p, dict_set name kws pk)))"

definition prepare_keyword_index :: "SimpleTamilPagePredictor \<Rightarrow> py_error + SimpleTamilPagePredictor" where
  "prepare_keyword_index s =
     (case index_features (knowledge_base s) ([], []) of
        Inl e \<Rightarrow> Inl e
      | Inr (k2p, pk) \<Rightarrow> Inr (s\<lparr>keyword_to_page := k2p, page_keywords := pk\<rparr>))"

text \<open>
  The constructor \<^verbatim>\<open>__init__\<close>: \<open>s\<close> is the object it is run on, \<open>kb\<close> the parsed JSON
  file. An exception leaves the constructor, so no predictor object comes into being.
\<close>

definition SimpleTamilPagePredictor_init ::
  "SimpleTamilPagePredictor \<Rightarrow> feature list \<Rightarrow> py_error + SimpleTamilPagePredictor" where
  "SimpleTamilPagePredictor_init s kb = prepare_keyword_index (s\<lparr>knowledge_base := kb\<rparr>)"

subsection \<open>\<^verbatim>\<open>predict_page\<close>\<close>

definition word_matches :: "string \<Rightarrow> string \<Rightarrow> bool" where
  "word_matches word keyword = (str_in word (lower keyword) \<or> str_in (lower keyword) word)"

definition bump :: "string \<Rightarrow> (string, nat) dict \<Rightarrow> (string, nat) dict" where
  "bump page ps = dict_set page ((case map_of ps page of None \<Rightarrow> 0 | Some n \<Rightarrow> n) + 1) ps"

definition score_keyword :: "string \<Rightarrow> string \<times> string list \<Rightarrow> (string, nat) dict \<Rightarrow> (string, nat) dict" where
  "score_keyword word kp ps = (if word_matches word (fst kp) then fold bump (snd kp) ps else ps)"

definition score_word :: "(string, string list) dict \<Rightarrow> string \<Rightarrow> (string, nat) dict \<Rightarrow> (string, nat) dict" where
  "score_word k2p word ps = fold (score_keyword word) k2p ps"

definition score_query :: "(string, string list) dict \<Rightarrow> string list \<Rightarrow> (string, nat) dict" where
  "score_query k2p query_words = fold (score_word k2p) query_words []"

definition page_scores :: "SimpleTamilPagePredictor \<Rightarrow> string list \<Rightarrow> (string, nat) dict" where
  "page_scores s query_words =
     (let ps = score_query (keyword_to_page s) query_words
      in if ps = [] then map (\<lambda>p. (fst p, 0)) (page_keywords s) else ps)"

text \<open>
  \<^verbatim>\<open>sorted(page_scores.items(), key=lambda x: x[1], reverse=True)\<close>: Python's sort is
  stable, also with \<^verbatim>\<open>reverse=True\<close>, so entries of equal score keep their order.
\<close>

definition sorted_pages :: "(string, nat) dict \<Rightarrow> (string, nat) dict" where
  "sorted_pages ps = sort_key (\<lambda>x. - int (snd x)) ps"

definition matching_keyword :: "string list \<Rightarrow> string list \<Rightarrow> string" where
  "matching_keyword query_words kws =
     (let found = (case find (\<lambda>keyword. list_ex (\<lambda>word. str_in word (lower keyword)) query_words) kws of
                     None \<Rightarrow> '''' | Some keyword \<Rightarrow> keyword)
      in if found = '''' \<and> kws \<noteq> [] then hd kws else found)"

text \<open>
  The score is \<^verbatim>\<open>score / max(len(query_words), 1)\<close>, Python's true division of two
  integers. Python returns the double nearest to the quotient; the embedding keeps the
  quotient itself, an exact rational, so a score such as 2/3 stands for the double
  0.6666666666666666.
\<close>

definition simple_result ::
  "SimpleTamilPagePredictor \<Rightarrow> string list \<Rightarrow> string \<times> nat \<Rightarrow> py_error + rat match_result" where
  "simple_result s query_words ps =
     (case dict_get (page_keywords s) (fst ps) of
        Inl e \<Rightarrow> Inl e
      | Inr kws \<Rightarrow>
          (case get_page_description (knowledge_base s) (fst ps) of
             Inl e \<Rightarrow> Inl e
           | Inr d \<Rightarrow>
               Inr \<lparr>res_page_name = fst ps,
                    res_keyword = matching_keyword query_words kws,
                    similarity_score = of_nat (snd ps) / of_nat (max (length query_words) 1),
                    res_description = d\<rparr>))"

definition predict_page_simple ::
  "SimpleTamilPagePredictor \<Rightarrow> string \<Rightarrow> py_error + rat match_result list" where
  "predict_page_simple s query_text =
     (let query_words = split (lower query_text)
      in for_each (simple_result s query_words) (take 5 (sorted_pages (page_scores s query_words))))"

section \<open>The embedding matcher: \<^verbatim>\<open>TamilPagePredictor\<close>\<close>

text \<open>
  The sentence encoder, \<^verbatim>\<open>cosine_similarity\<close> and \<^verbatim>\<open>np.argsort\<close> are libraries; they
  are parameters of \<open>predict_page\<close>.

  \<^item> \<open>sim q k\<close> is the similarity of the query \<open>q\<close> and the candidate text \<open>k\<close>, the
    composition of the encoder and \<^verbatim>\<open>cosine_similarity\<close>, a value of any type. The row
    \<^verbatim>\<open>similarities[0]\<close> has one entry per candidate text. With no candidate text at all
    \<^verbatim>\<open>cosine_similarity\<close> raises \<^verbatim>\<open>ValueError\<close> (it rejects an array without rows), so
    \<^verbatim>\<open>predict_page\<close> raises before anything is ranked.
  \<^item> \<open>argsort\<close> is \<^verbatim>\<open>np.argsort\<close> with its default sort, which is not stable. All that is
    assumed of it, where something is assumed, is its contract \<open>argsort_spec\<close>: the result
    is a permutation of the indices that puts the values in ascending order. The order it
    gives to equal values is left open.
\<close>

record TamilPagePredictor = predictor +
  candidates :: "string list"
  candidate_texts :: "string list"

fun collect_candidates ::
  "feature list \<Rightarrow> string list \<times> string list \<Rightarrow> py_error + string list \<times> string list" where
  "collect_candidates [] (cs, ts) = Inr (cs, ts)"
| "collect_candidates (f # fs) (cs, ts) =
     (case page_name f of None \<Rightarrow> Inl KeyError
      | Some name \<Rightarrow>
          (case keywords_list f of None \<Rightarrow> Inl KeyError
           | Some kws \<Rightarrow> collect_candidates fs (cs @ map (\<lambda>k. name) kws, ts @ kws)))"

definition prepare_candidates :: "TamilPagePredictor \<Rightarrow> py_error + TamilPagePredictor" where
  "prepare_candidates s =
     (case collect_candidates (knowledge_base s) (candidates s, candidate_texts s) of
        Inl e \<Rightarrow> Inl e
      | Inr (cs, ts) \<Rightarrow> Inr (s\<lparr>candidates := cs, candidate_texts := ts\<rparr>))"

definition TamilPagePredictor_init ::
  "TamilPagePredictor \<Rightarrow> feature list \<Rightarrow> py_error + TamilPagePredictor" where
  "TamilPagePredictor_init s kb =
     prepare_candidates (s\<lparr>knowledge_base := kb, candidates := [], candidate_texts := []\<rparr>)"

definition argsort_spec :: "('s::linorder list \<Rightarrow> nat list) \<Rightarrow> 's list \<Rightarrow> bool" where
  "argsort_spec argsort xs =
     (sort (argsort xs) = [0..<length xs] \<and> sorted (map ((!) xs) (argsort xs)))"

definition top_indices :: "('s list \<Rightarrow> nat list) \<Rightarrow> 's list \<Rightarrow> nat list" where
  "top_indices argsort similarities = take 5 (rev (argsort similarities))"

definition embedding_result ::
  "TamilPagePredictor \<Rightarrow> 's list \<Rightarrow> nat \<Rightarrow> py_error + 's match_result" where
  "embedding_result s similarities idx =
     (case list_get (candidates s) idx of
        Inl e \<Rightarrow> Inl e
      | Inr name \<Rightarrow>
          (case list_get (candidate_texts s) idx of
             Inl e \<Rightarrow> Inl e
           | Inr text \<Rightarrow>
               (case list_get similarities idx of
                  Inl e \<Rightarrow> Inl e
                | Inr score \<Rightarrow>
                    (case get_page_description (knowledge_base s) name of
                       Inl e \<Rightarrow> Inl e
                     | Inr d \<Rightarrow>
                         Inr \<lparr>res_page_name = name, res_keyword = text,
                              similarity_score = score, res_description = d\<rparr>))))"

definition predict_page ::
  "(string \<Rightarrow> string \<Rightarrow> 's) \<Rightarrow> ('s list \<Rightarrow> nat list) \<Rightarrow> TamilPagePredictor \<Rightarrow> string \<Rightarrow>
   py_error + 's match_result list" where
  "predict_page sim argsort s query_text =
     (if candidate_texts s = [] then Inl ValueError
      else
        let similarities = map (sim query_text) (candidate_texts s)
        in for_each (embedding_result s similarities) (top_indices argsort similarities))"

section \<open>Notions used to state the properties\<close>

text \<open>
  The definitions below are not part of the program. They name what the properties speak
  about: the records of a catalog that have both fields, the hit count of a page as the
  specification words it, the order in which page names first occur, and the small catalogs on
  which the theorems are instantiated.
\<close>

text \<open>
  A record that has both keys, and the (name, keywords) pairs of such records in catalog
  order. Loading succeeds exactly on the catalogs all of whose records have both keys.
\<close>

definition has_fields :: "feature \<Rightarrow> bool" where
  "has_fields f = (page_name f \<noteq> None \<and> keywords_list f \<noteq> None)"

fun entries :: "feature list \<Rightarrow> (string \<times> string list) list" where
  "entries [] = []"
| "entries (f # fs) =
     (case page_name f of None \<Rightarrow> entries fs
      | Some name \<Rightarrow> (case keywords_list f of None \<Rightarrow> entries fs | Some kws \<Rightarrow> (name, kws) # entries fs))"

text \<open>
  The value of a page in a scoring map, and the hit counts of a page: through the keyword
  index, through the records of the catalog, over all query words.
\<close>

definition score_of :: "(string, nat) dict \<Rightarrow> string \<Rightarrow> nat" where
  "score_of ps page = (case map_of ps page of None \<Rightarrow> 0 | Some n \<Rightarrow> n)"

definition positive_scores :: "(string, nat) dict \<Rightarrow> bool" where
  "positive_scores ps = (distinct (map fst ps) \<and> (\<forall>e\<in>set ps. 0 < snd e))"

definition index_hits :: "(string, string list) dict \<Rightarrow> string \<Rightarrow> string \<Rightarrow> nat" where
  "index_hits k2p word page =
     sum_list (map (\<lambda>kp. if word_matches word (fst kp) then count_list (snd kp) page else 0) k2p)"

definition entry_hits :: "(string \<times> string list) list \<Rightarrow> string \<Rightarrow> string \<Rightarrow> nat" where
  "entry_hits es word page =
     sum_list (map (\<lambda>e. if fst e = page then length (filter (word_matches word) (snd e)) else 0) es)"

definition hits :: "(string \<times> string list) list \<Rightarrow> string list \<Rightarrow> string \<Rightarrow> nat" where
  "hits es query_words page = sum_list (map (\<lambda>word. entry_hits es word page) query_words)"

text \<open>
  The page names in the order of their first occurrence: the key order of the dictionary
  \<^verbatim>\<open>page_keywords\<close>. \<open>any_match\<close> says that some query word hits some keyword.
\<close>

fun first_seen :: "string list \<Rightarrow> string list \<Rightarrow> string list" where
  "first_seen seen [] = []"
| "first_seen seen (x # xs) = (if x \<in> set seen then first_seen seen xs else x # first_seen (seen @ [x]) xs)"

definition catalog_order :: "feature list \<Rightarrow> string list" where
  "catalog_order kb = first_seen [] (map fst (entries kb))"

definition any_match :: "feature list \<Rightarrow> string list \<Rightarrow> bool" where
  "any_match kb query_words =
     list_ex (\<lambda>word. list_ex (\<lambda>e. list_ex (word_matches word) (snd e)) (entries kb)) query_words"

text \<open>
  The raw hit count of a page in the words of the specification: the number of pairs of a
  query word and a keyword occurrence of the page that stand in substring containment.
  \<open>candidate_pairs\<close> are the candidates of the data model, one per keyword occurrence.
\<close>

definition hit_pairs :: "feature list \<Rightarrow> string list \<Rightarrow> string \<Rightarrow> nat" where
  "hit_pairs kb query_words page =
     length [(word, keyword).
               word \<leftarrow> query_words, f \<leftarrow> kb, page_name f = Some page,
               keyword \<leftarrow> (case keywords_list f of None \<Rightarrow> [] | Some kws \<Rightarrow> kws),
               sublist word (lower keyword) \<or> sublist (lower keyword) word]"

definition candidate_pairs :: "feature list \<Rightarrow> (string \<times> string) list" where
  "candidate_pairs kb = concat (map (\<lambda>e. map (\<lambda>k. (fst e, k)) (snd e)) (entries kb))"

text \<open>
  Constructing a predictor from a catalog and asking it one query, as the module does with
  its global \<^verbatim>\<open>predictor\<close>; and the page names of an outcome.
\<close>

definition simple_predictions ::
  "SimpleTamilPagePredictor \<Rightarrow> feature list \<Rightarrow> string \<Rightarrow> py_error + rat match_result list" where
  "simple_predictions s kb q =
     (case SimpleTamilPagePredictor_init s kb of Inl err \<Rightarrow> Inl err | Inr p \<Rightarrow> predict_page_simple p q)"

definition embedding_predictions ::
  "(string \<Rightarrow> string \<Rightarrow> 's) \<Rightarrow> ('s list \<Rightarrow> nat list) \<Rightarrow> TamilPagePredictor \<Rightarrow> feature list \<Rightarrow>
   string \<Rightarrow> py_error + 's match_result list" where
  "embedding_predictions sim argsort e kb q =
     (case TamilPagePredictor_init e kb of
        Inl err \<Rightarrow> Inl err
      | Inr p \<Rightarrow> predict_page sim argsort p q)"

definition result_pages :: "py_error + 's match_result list \<Rightarrow> string list" where
  "result_pages res = (case res of Inl err \<Rightarrow> [] | Inr rs \<Rightarrow> map res_page_name rs)"

text \<open>
  Sample data: objects before their constructor has run, a well-formed record, a record
  without \<^verbatim>\<open>page_name\<close>, one function that meets the contract of \<open>argsort\<close> (the
  stable sort, which takes equal values in index order), a toy similarity (the number of
  characters of the candidate text that occur in the query), two catalogs and the
  predictors they load into.
\<close>

definition new_simple :: SimpleTamilPagePredictor where
  "new_simple = \<lparr>knowledge_base = [], keyword_to_page = [], page_keywords = []\<rparr>"

definition new_embedding :: TamilPagePredictor where
  "new_embedding = \<lparr>knowledge_base = [], candidates = [], candidate_texts = []\<rparr>"

definition page_record :: "string \<Rightarrow> string list \<Rightarrow> feature" where
  "page_record name kws = \<lparr>page_name = Some name, keywords_list = Some kws, description = None\<rparr>"

definition nameless :: feature where
  "nameless = \<lparr>page_name = None, keywords_list = Some [''soil''], description = None\<rparr>"

definition stable_argsort :: "'s::linorder list \<Rightarrow> nat list" where
  "stable_argsort xs = sort_key (\<lambda>i. xs ! i) [0..<length xs]"

definition overlap_sim :: "string \<Rightarrow> string \<Rightarrow> int" where
  "overlap_sim q k = int (length (filter (\<lambda>c. c \<in> set q) k))"

definition two_pages :: "feature list" where
  "two_pages = [page_record ''irrigation'' [''water''], page_record ''yield'' [''harvest'']]"

definition six_pages :: "feature list" where
  "six_pages = [page_record ''a'' [''ant''], page_record ''b'' [''bee''], page_record ''c'' [''cow''],
                page_record ''d'' [''dog''], page_record ''e'' [''eel''], page_record ''f'' [''fox'']]"

definition two_pages_simple :: SimpleTamilPagePredictor where
  "two_pages_simple =
     \<lparr>knowledge_base = two_pages,
      keyword_to_page = [(''water'', [''irrigation'']), (''harvest'', [''yield''])],
      page_keywords = [(''irrigation'', [''water'']), (''yield'', [''harvest''])]\<rparr>"

definition two_pages_embedding :: TamilPagePredictor where
  "two_pages_embedding =
     \<lparr>knowledge_base = two_pages,
      candidates = [''irrigation'', ''yield''],
      candidate_texts = [''water'', ''harvest'']\<rparr>"

definition six_pages_simple :: SimpleTamilPagePredictor where
  "six_pages_simple =
     \<lparr>knowledge_base = six_pages,
      keyword_to_page = [(''ant'', [''a'']), (''bee'', [''b'']), (''cow'', [''c'']),
                         (''dog'', [''d'']), (''eel'', [''e'']), (''fox'', [''f''])],
      page_keywords = [(''a'', [''ant'']), (''b'', [''bee'']), (''c'', [''cow'']),
                       (''d'', [''dog'']), (''e'', [''eel'']), (''f'', [''fox''])]\<rparr>"

section \<open>Lemmas\<close>

subsection \<open>Loops, dictionaries and loading\<close>

lemma for_each_Inr_iff: "for_each f xs = Inr ys \<longleftrightarrow> list_all2 (\<lambda>x y. f x = Inr y) xs ys"
proof (induction xs arbitrary: ys)
  case Nil
  then show ?case by auto
next
  case (Cons x xs)
  show ?case
  proof (cases "f x")
    case (Inl e)
    then show ?thesis by (auto simp: list_all2_Cons1)
  next
    case (Inr y)
    then show ?thesis using Cons.IH
      by (cases "for_each f xs") (auto simp: list_all2_Cons1)
  qed
qed

lemma for_each_total:
  "(\<And>x. x \<in> set xs \<Longrightarrow> \<exists>y. f x = Inr y) \<Longrightarrow> \<exists>ys. for_each f xs = Inr ys"
proof (induction xs)
  case Nil
  then show ?case by simp
next
  case (Cons x xs)
  then obtain y where "f x = Inr y" by auto
  moreover obtain ys where "for_each f xs = Inr ys" using Cons by auto
  ultimately show ?case by simp
qed

lemma map_of_dict_set: "map_of (dict_set k v d) = (map_of d)(k \<mapsto> v)"
  by (induction d) (auto simp: fun_eq_iff)

lemma keys_dict_set: "fst ` set (dict_set k v d) = insert k (fst ` set d)"
  by (induction d) auto

lemma map_fst_dict_set:
  "map fst (dict_set k v d) = (if k \<in> fst ` set d then map fst d else map fst d @ [k])"
  by (induction d) auto

lemma distinct_dict_set: "distinct (map fst d) \<Longrightarrow> distinct (map fst (dict_set k v d))"
  by (simp add: map_fst_dict_set)

lemma dict_set_not_Nil: "dict_set k v d \<noteq> []"
  by (cases d) auto

lemma get_page_description_total:
  "list_all has_fields kb \<Longrightarrow> \<exists>d. get_page_description kb name = Inr d"
  by (induction kb) (auto simp: has_fields_def)

lemma index_features_fails: "\<not> list_all has_fields kb \<Longrightarrow> index_features kb st = Inl KeyError"
proof (induction kb arbitrary: st)
  case Nil
  then show ?case by simp
next
  case (Cons f fs)
  obtain k2p pk where st: "st = (k2p, pk)" by (cases st)
  show ?case using Cons unfolding st
    by (auto simp: has_fields_def split: option.splits)
qed

lemma index_features_loaded:
  "list_all has_fields kb \<Longrightarrow>
   index_features kb (k2p, pk) =
     Inr (fold (\<lambda>e. add_keywords (fst e) (snd e)) (entries kb) k2p,
          fold (\<lambda>e. dict_set (fst e) (snd e)) (entries kb) pk)"
  by (induction kb arbitrary: k2p pk) (auto simp: has_fields_def)

lemma collect_candidates_fails: "\<not> list_all has_fields kb \<Longrightarrow> collect_candidates kb st = Inl KeyError"
proof (induction kb arbitrary: st)
  case Nil
  then show ?case by simp
next
  case (Cons f fs)
  obtain cs ts where st: "st = (cs, ts)" by (cases st)
  show ?case using Cons unfolding st
    by (auto simp: has_fields_def split: option.splits)
qed

lemma collect_candidates_loaded:
  "list_all has_fields kb \<Longrightarrow>
   collect_candidates kb (cs, ts) =
     Inr (cs @ concat (map (\<lambda>e. map (\<lambda>k. fst e) (snd e)) (entries kb)),
          ts @ concat (map snd (entries kb)))"
  by (induction kb arbitrary: cs ts) (auto simp: has_fields_def)

subsection \<open>The scoring loop\<close>

lemma score_of_bump: "score_of (bump q ps) p = score_of ps p + (if p = q then 1 else 0)"
  by (simp add: score_of_def bump_def map_of_dict_set)

lemma positive_bump: "positive_scores ps \<Longrightarrow> positive_scores (bump q ps)"
  unfolding positive_scores_def bump_def
proof (induction ps)
  case Nil
  then show ?case by simp
next
  case (Cons e ps)
  then show ?case by (auto simp: keys_dict_set image_iff)
qed

lemma score_of_fold_bump: "score_of (fold bump pages ps) p = score_of ps p + count_list pages p"
  by (induction pages arbitrary: ps) (auto simp: score_of_bump)

lemma positive_fold_bump: "positive_scores ps \<Longrightarrow> positive_scores (fold bump pages ps)"
  by (induction pages arbitrary: ps) (auto simp: positive_bump)

lemma score_of_score_word:
  "score_of (score_word k2p w ps) p = score_of ps p + index_hits k2p w p"
  unfolding score_word_def index_hits_def
  by (induction k2p arbitrary: ps) (auto simp: score_keyword_def score_of_fold_bump)

lemma positive_score_word: "positive_scores ps \<Longrightarrow> positive_scores (score_word k2p w ps)"
  unfolding score_word_def
  by (induction k2p arbitrary: ps) (auto simp: score_keyword_def positive_fold_bump)

lemma score_of_fold_score_word:
  "score_of (fold (score_word k2p) ws ps) p = score_of ps p + sum_list (map (\<lambda>w. index_hits k2p w p) ws)"
  by (induction ws arbitrary: ps) (auto simp: score_of_score_word)

lemma positive_fold_score_word:
  "positive_scores ps \<Longrightarrow> positive_scores (fold (score_word k2p) ws ps)"
  by (induction ws arbitrary: ps) (auto simp: positive_score_word)

lemma score_of_Nil: "score_of [] p = 0"
  by (simp add: score_of_def)

lemma score_of_score_query:
  "score_of (score_query k2p ws) p = sum_list (map (\<lambda>w. index_hits k2p w p) ws)"
  unfolding score_query_def by (simp only: score_of_fold_score_word score_of_Nil add_0)

lemma positive_Nil: "positive_scores []"
  by (simp add: positive_scores_def)

lemma positive_score_query: "positive_scores (score_query k2p ws)"
  unfolding score_query_def by (rule positive_fold_score_word [OF positive_Nil])

lemma positive_scores_mem:
  assumes "positive_scores ps"
  shows "(p, n) \<in> set ps \<longleftrightarrow> score_of ps p = n \<and> 0 < n"
proof
  assume "(p, n) \<in> set ps"
  then show "score_of ps p = n \<and> 0 < n"
    using assms by (auto simp: positive_scores_def score_of_def)
next
  assume h: "score_of ps p = n \<and> 0 < n"
  then obtain m where "map_of ps p = Some m" "m = n"
    by (auto simp: score_of_def split: option.splits)
  then show "(p, n) \<in> set ps" by (auto dest: map_of_SomeD)
qed

lemma index_hits_dict_set:
  "index_hits (dict_set kw ((case map_of k2p kw of None \<Rightarrow> [] | Some pages \<Rightarrow> pages) @ [name]) k2p) w p
     = index_hits k2p w p + (if word_matches w kw \<and> name = p then 1 else 0)"
  unfolding index_hits_def
  by (induction k2p) auto

lemma index_hits_add_keywords:
  "index_hits (add_keywords name kws k2p) w p
     = index_hits k2p w p + (if name = p then length (filter (word_matches w) kws) else 0)"
  by (induction kws arbitrary: k2p) (auto simp: index_hits_dict_set)

lemma index_hits_fold_add:
  "index_hits (fold (\<lambda>e. add_keywords (fst e) (snd e)) es k2p) w p
     = index_hits k2p w p + entry_hits es w p"
proof (induction es arbitrary: k2p)
  case Nil
  then show ?case by (simp add: entry_hits_def)
next
  case (Cons e es)
  then show ?case by (simp add: index_hits_add_keywords entry_hits_def)
qed

lemma score_of_loaded:
  "score_of (score_query (fold (\<lambda>e. add_keywords (fst e) (snd e)) es []) ws) p = hits es ws p"
proof -
  have "index_hits [] w p = 0" for w by (simp add: index_hits_def)
  then show ?thesis
    by (simp add: score_of_score_query index_hits_fold_add hits_def)
qed

subsection \<open>The index of a loaded lexical predictor\<close>

lemma keys_fold_dict_set:
  "fst ` set (fold (\<lambda>e. dict_set (fst e) (snd e)) es pk) = fst ` set pk \<union> fst ` set es"
  by (induction es arbitrary: pk) (auto simp: keys_dict_set)

lemma distinct_fold_dict_set:
  "distinct (map fst pk) \<Longrightarrow> distinct (map fst (fold (\<lambda>e. dict_set (fst e) (snd e)) es pk))"
  by (induction es arbitrary: pk) (auto simp: distinct_dict_set)

lemma map_of_fold_dict_set:
  "map_of (fold (\<lambda>e. dict_set (fst e) (snd e)) es pk) name = Some kws \<Longrightarrow>
   map_of pk name = Some kws \<or> (name, kws) \<in> set es"
proof (induction es arbitrary: pk)
  case Nil
  then show ?case by simp
next
  case (Cons e es)
  from Cons.IH [OF Cons.prems [simplified]]
  show ?case by (cases e) (auto simp: map_of_dict_set split: if_splits)
qed

lemma entry_hits_pos_iff:
  "0 < entry_hits es w p \<longleftrightarrow> (\<exists>e\<in>set es. fst e = p \<and> (\<exists>k\<in>set (snd e). word_matches w k))"
  unfolding entry_hits_def
  by (induction es) (auto simp: filter_empty_conv)

lemma hits_pos_iff:
  "0 < hits es ws p \<longleftrightarrow>
     (\<exists>w\<in>set ws. \<exists>e\<in>set es. fst e = p \<and> (\<exists>k\<in>set (snd e). word_matches w k))"
proof -
  have "0 < sum_list (map g ws) \<longleftrightarrow> (\<exists>w\<in>set ws. 0 < g w)" for g :: "string \<Rightarrow> nat"
    by (induction ws) auto
  then show ?thesis
    unfolding hits_def by (simp add: entry_hits_pos_iff)
qed

lemma simple_init_Inr:
  "SimpleTamilPagePredictor_init s kb = Inr p \<longleftrightarrow>
     list_all has_fields kb \<and>
     p = s\<lparr>knowledge_base := kb,
           keyword_to_page := fold (\<lambda>e. add_keywords (fst e) (snd e)) (entries kb) [],
           page_keywords := fold (\<lambda>e. dict_set (fst e) (snd e)) (entries kb) []\<rparr>"
proof (cases "list_all has_fields kb")
  case True
  then show ?thesis
    by (auto simp: SimpleTamilPagePredictor_init_def prepare_keyword_index_def index_features_loaded)
next
  case False
  then show ?thesis
    by (simp add: SimpleTamilPagePredictor_init_def prepare_keyword_index_def index_features_fails)
qed

lemma simple_init_Inl:
  "SimpleTamilPagePredictor_init s kb = Inl e \<longleftrightarrow> \<not> list_all has_fields kb \<and> e = KeyError"
proof (cases "list_all has_fields kb")
  case True
  then show ?thesis
    by (auto simp: SimpleTamilPagePredictor_init_def prepare_keyword_index_def index_features_loaded)
next
  case False
  then show ?thesis
    by (auto simp: SimpleTamilPagePredictor_init_def prepare_keyword_index_def index_features_fails)
qed

text \<open>The scoring map of a loaded predictor.\<close>

lemma loaded_scores_mem:
  assumes "SimpleTamilPagePredictor_init s kb = Inr p"
  shows "(page, n) \<in> set (score_query (keyword_to_page p) ws) \<longleftrightarrow>
         hits (entries kb) ws page = n \<and> 0 < n"
proof -
  have k: "keyword_to_page p = fold (\<lambda>e. add_keywords (fst e) (snd e)) (entries kb) []"
    using assms by (simp add: simple_init_Inr)
  show ?thesis
    unfolding k positive_scores_mem [OF positive_score_query] score_of_loaded ..
qed

lemma loaded_scores_Nil:
  assumes "SimpleTamilPagePredictor_init s kb = Inr p"
  shows "score_query (keyword_to_page p) ws = [] \<longleftrightarrow> (\<forall>page. hits (entries kb) ws page = 0)"
proof
  assume e: "score_query (keyword_to_page p) ws = []"
  show "\<forall>page. hits (entries kb) ws page = 0"
  proof
    fix page
    show "hits (entries kb) ws page = 0"
      using loaded_scores_mem [OF assms, of page "hits (entries kb) ws page" ws] e by auto
  qed
next
  assume h: "\<forall>page. hits (entries kb) ws page = 0"
  show "score_query (keyword_to_page p) ws = []"
  proof (cases "score_query (keyword_to_page p) ws")
    case Nil
    then show ?thesis .
  next
    case (Cons x xs)
    obtain page n where "x = (page, n)" by (cases x)
    then have "(page, n) \<in> set (score_query (keyword_to_page p) ws)" using Cons by simp
    then have "hits (entries kb) ws page = n \<and> 0 < n"
      unfolding loaded_scores_mem [OF assms] .
    then show ?thesis using h by auto
  qed
qed

lemma loaded_page_scores_mem:
  assumes "SimpleTamilPagePredictor_init s kb = Inr p"
    and "(page, n) \<in> set (page_scores p ws)"
  shows "hits (entries kb) ws page = n" and "page \<in> fst ` set (entries kb)"
proof -
  have pk: "page_keywords p = fold (\<lambda>e. dict_set (fst e) (snd e)) (entries kb) []"
    using assms(1) by (simp add: simple_init_Inr)
  show "hits (entries kb) ws page = n"
  proof (cases "score_query (keyword_to_page p) ws = []")
    case True
    then have "n = 0" using assms(2) by (auto simp: page_scores_def)
    then show ?thesis using True loaded_scores_Nil [OF assms(1)] by simp
  next
    case False
    then show ?thesis using assms(2) loaded_scores_mem [OF assms(1)]
      by (simp add: page_scores_def)
  qed
  show "page \<in> fst ` set (entries kb)"
  proof (cases "score_query (keyword_to_page p) ws = []")
    case True
    then have "page \<in> fst ` set (page_keywords p)"
      using assms(2) by (auto simp: page_scores_def image_iff)
    then show ?thesis unfolding pk keys_fold_dict_set by simp
  next
    case False
    then have "0 < hits (entries kb) ws page"
      using assms(2) loaded_scores_mem [OF assms(1)] by (auto simp: page_scores_def)
    then show ?thesis unfolding hits_pos_iff by auto
  qed
qed

lemma distinct_page_scores:
  assumes "SimpleTamilPagePredictor_init s kb = Inr p"
  shows "distinct (map fst (page_scores p ws))"
proof -
  have pk: "page_keywords p = fold (\<lambda>e. dict_set (fst e) (snd e)) (entries kb) []"
    using assms(1) by (simp add: simple_init_Inr)
  have "distinct (map fst (page_keywords p))"
    unfolding pk by (rule distinct_fold_dict_set) simp
  moreover have "distinct (map fst (score_query (keyword_to_page p) ws))"
    using positive_score_query by (simp add: positive_scores_def)
  ultimately show ?thesis
    by (simp add: page_scores_def Let_def comp_def)
qed

subsection \<open>Substrings and the hit count\<close>

lemma startswith_iff_prefix: "startswith s w \<longleftrightarrow> prefix w s"
  by (induction s w rule: startswith.induct) auto

lemma str_in_iff_sublist: "str_in w s \<longleftrightarrow> sublist w s"
  by (induction s) (auto simp: startswith_iff_prefix sublist_Cons_right)

lemma word_matches_iff: "word_matches w k \<longleftrightarrow> sublist w (lower k) \<or> sublist (lower k) w"
  by (simp add: word_matches_def str_in_iff_sublist)

lemma hit_pairs_eq_hits:
  assumes "list_all has_fields kb"
  shows "hit_pairs kb ws page = hits (entries kb) ws page"
proof -
  have inner: "length (concat (map (\<lambda>f. if page_name f = Some page
                  then concat (map (\<lambda>k. if sublist w (lower k) \<or> sublist (lower k) w then [(w, k)] else [])
                         (case keywords_list f of None \<Rightarrow> [] | Some kws \<Rightarrow> kws))
                  else []) kb))
        = entry_hits (entries kb) w page" for w
    using assms
  proof (induction kb)
    case Nil
    then show ?case by (simp add: entry_hits_def)
  next
    case (Cons f fs)
    have len: "length (concat (map (\<lambda>k. if P k then [(w, k)] else []) ks)) = length (filter P ks)"
      for P and ks :: "string list"
      by (induction ks) auto
    from Cons show ?case
      by (auto simp: entry_hits_def has_fields_def len word_matches_iff [abs_def])
  qed
  show ?thesis
    unfolding hit_pairs_def hits_def
    by (induction ws) (auto simp: inner)
qed

lemma map_fst_fold_dict_set:
  "map fst (fold (\<lambda>e. dict_set (fst e) (snd e)) es pk) = map fst pk @ first_seen (map fst pk) (map fst es)"
  by (induction es arbitrary: pk) (auto simp: map_fst_dict_set)

lemma first_seen_distinct: "distinct xs \<Longrightarrow> set seen \<inter> set xs = {} \<Longrightarrow> first_seen seen xs = xs"
  by (induction xs arbitrary: seen) auto

lemma any_match_iff_hits: "any_match kb ws \<longleftrightarrow> (\<exists>page. 0 < hits (entries kb) ws page)"
  unfolding hits_pos_iff any_match_def list_ex_iff by auto

subsection \<open>The results of the lexical matcher\<close>

lemma simple_result_fields:
  assumes "simple_result p ws ps = Inr r"
  shows "res_page_name r = fst ps"
    and "similarity_score r = of_nat (snd ps) / of_nat (max (length ws) 1)"
    and "\<exists>kws. map_of (page_keywords p) (fst ps) = Some kws \<and> res_keyword r = matching_keyword ws kws"
  using assms
  by (auto simp: simple_result_def dict_get_def split: option.splits sum.splits)

lemma simple_result_total:
  assumes "SimpleTamilPagePredictor_init s kb = Inr p" and "fst ps \<in> fst ` set (entries kb)"
  shows "\<exists>r. simple_result p ws ps = Inr r"
proof -
  have pk: "page_keywords p = fold (\<lambda>e. dict_set (fst e) (snd e)) (entries kb) []"
    and kb: "knowledge_base p = kb" and wf: "list_all has_fields kb"
    using assms(1) by (simp_all add: simple_init_Inr)
  have "fst ps \<in> fst ` set (page_keywords p)"
    unfolding pk keys_fold_dict_set using assms(2) by simp
  then obtain kws where "map_of (page_keywords p) (fst ps) = Some kws"
    by (metis map_of_eq_None_iff not_None_eq)
  moreover obtain d where "get_page_description kb (fst ps) = Inr d"
    using get_page_description_total [OF wf] by blast
  ultimately show ?thesis
    by (simp add: simple_result_def dict_get_def kb)
qed

lemma predict_simple_Inr_iff:
  "predict_page_simple p q = Inr rs \<longleftrightarrow>
     list_all2 (\<lambda>ps r. simple_result p (split (lower q)) ps = Inr r)
       (take 5 (sorted_pages (page_scores p (split (lower q))))) rs"
  by (simp add: predict_page_simple_def Let_def for_each_Inr_iff)

lemma set_sorted_pages: "set (sorted_pages ps) = set ps"
  by (simp add: sorted_pages_def)

lemma length_sorted_pages: "length (sorted_pages ps) = length ps"
  by (simp add: sorted_pages_def)

lemma distinct_sorted_pages: "distinct (map fst (sorted_pages ps)) = distinct (map fst ps)"
proof -
  have "mset (map fst (sorted_pages ps)) = mset (map fst ps)"
    by (simp add: sorted_pages_def)
  then show ?thesis by (metis distinct_count_atmost_1 set_mset_mset)
qed

lemma sorted_sorted_pages: "sorted_wrt (\<lambda>x y. snd y \<le> snd x) (sorted_pages ps)"
proof -
  have "sorted (map (\<lambda>x. - int (snd x)) (sorted_pages ps))"
    unfolding sorted_pages_def by (rule sorted_sort_key)
  then show ?thesis by (simp add: sorted_map)
qed

lemma mset_sorted_pages: "mset (sorted_pages ps) = mset ps"
  by (simp add: sorted_pages_def)

lemma sorted_pages_zero: "\<forall>x\<in>set ps. snd x = 0 \<Longrightarrow> sorted_pages ps = ps"
  unfolding sorted_pages_def
  by (rule sort_key_id_if_sorted) (simp add: sorted_wrt_iff_nth_less sorted_wrt_map)

lemma predict_simple_total:
  assumes "SimpleTamilPagePredictor_init s kb = Inr p"
  shows "\<exists>rs. predict_page_simple p q = Inr rs"
proof -
  have "\<exists>r. simple_result p (split (lower q)) ps = Inr r"
    if "ps \<in> set (take 5 (sorted_pages (page_scores p (split (lower q)))))" for ps
  proof -
    from that have "(fst ps, snd ps) \<in> set (page_scores p (split (lower q)))"
      using set_sorted_pages by (auto dest: in_set_takeD)
    from loaded_page_scores_mem(2) [OF assms this] show ?thesis
      by (rule simple_result_total [OF assms])
  qed
  then show ?thesis
    unfolding predict_page_simple_def Let_def by (rule for_each_total)
qed

lemma predict_simple_names:
  assumes "predict_page_simple p q = Inr rs"
  shows "map res_page_name rs = map fst (take 5 (sorted_pages (page_scores p (split (lower q)))))"
proof -
  have "list_all2 (\<lambda>ps r. res_page_name r = fst ps)
          (take 5 (sorted_pages (page_scores p (split (lower q))))) rs"
    using assms unfolding predict_simple_Inr_iff
    by (rule list_all2_mono) (simp add: simple_result_fields)
  then show ?thesis
    by (induction rule: list_all2_induct) auto
qed

subsection \<open>The embedding matcher\<close>

lemma emb_init_Inr:
  "TamilPagePredictor_init e kb = Inr p \<longleftrightarrow>
     list_all has_fields kb \<and>
     p = e\<lparr>knowledge_base := kb,
           candidates := map fst (candidate_pairs kb),
           candidate_texts := map snd (candidate_pairs kb)\<rparr>"
proof -
  have c: "concat (map (\<lambda>e. map (\<lambda>k. fst e) (snd e)) es) =
           map fst (concat (map (\<lambda>e. map (\<lambda>k. (fst e, k)) (snd e)) es))"
    for es :: "(string \<times> string list) list"
    by (induction es) (auto simp: comp_def)
  have t: "concat (map snd es) = map snd (concat (map (\<lambda>e. map (\<lambda>k. (fst e, k)) (snd e)) es))"
    for es :: "(string \<times> string list) list"
    by (induction es) (auto simp: comp_def)
  show ?thesis
  proof (cases "list_all has_fields kb")
    case True
    then show ?thesis
      unfolding candidate_pairs_def c [symmetric] t [symmetric]
      by (auto simp: TamilPagePredictor_init_def prepare_candidates_def collect_candidates_loaded)
  next
    case False
    then show ?thesis
      by (simp add: TamilPagePredictor_init_def prepare_candidates_def collect_candidates_fails)
  qed
qed

lemma emb_init_Inl:
  "TamilPagePredictor_init e kb = Inl err \<longleftrightarrow> \<not> list_all has_fields kb \<and> err = KeyError"
proof (cases "list_all has_fields kb")
  case True
  then show ?thesis
    by (auto simp: TamilPagePredictor_init_def prepare_candidates_def collect_candidates_loaded)
next
  case False
  then show ?thesis
    by (auto simp: TamilPagePredictor_init_def prepare_candidates_def collect_candidates_fails)
qed

text \<open>What the contract of \<open>argsort\<close> gives, and that the stable sort meets it.\<close>

lemma argsort_spec_mset: "argsort_spec argsort xs \<Longrightarrow> mset (argsort xs) = mset [0..<length xs]"
  by (metis argsort_spec_def mset_sort)

lemma argsort_spec_set: "argsort_spec argsort xs \<Longrightarrow> set (argsort xs) = {..<length xs}"
  using argsort_spec_mset [of argsort xs] mset_eq_setD [of "argsort xs" "[0..<length xs]"]
  by (simp add: lessThan_atLeast0)

lemma argsort_spec_distinct: "argsort_spec argsort xs \<Longrightarrow> distinct (argsort xs)"
  using argsort_spec_mset [of argsort xs] mset_eq_imp_distinct_iff [of "argsort xs" "[0..<length xs]"]
  by simp

lemma argsort_spec_length: "argsort_spec argsort xs \<Longrightarrow> length (argsort xs) = length xs"
  using argsort_spec_mset [of argsort xs] mset_eq_length [of "argsort xs" "[0..<length xs]"]
  by simp

lemma argsort_spec_stable: "argsort_spec stable_argsort xs"
proof -
  have "sort (stable_argsort xs) = [0..<length xs]"
    by (rule properties_for_sort) (simp_all add: stable_argsort_def)
  moreover have "sorted (map ((!) xs) (stable_argsort xs))"
    unfolding stable_argsort_def by (rule sorted_sort_key)
  ultimately show ?thesis by (simp add: argsort_spec_def)
qed

lemma top_indices_descending:
  assumes "argsort_spec argsort xs"
  shows "sorted_wrt (\<lambda>i j. xs ! j \<le> xs ! i) (top_indices argsort xs)"
proof -
  have "sorted_wrt (\<lambda>i j. xs ! i \<le> xs ! j) (argsort xs)"
    using assms by (simp add: argsort_spec_def sorted_map)
  then have "sorted_wrt (\<lambda>i j. xs ! j \<le> xs ! i) (rev (argsort xs))"
    by (simp add: sorted_wrt_rev)
  then show ?thesis
    unfolding top_indices_def by (rule sorted_wrt_take)
qed

lemma set_top_indices:
  "argsort_spec argsort xs \<Longrightarrow> set (top_indices argsort xs) \<subseteq> {..<length xs}"
  unfolding top_indices_def
  by (rule order_trans [OF set_take_subset]) (simp add: argsort_spec_set)

lemma distinct_top_indices: "argsort_spec argsort xs \<Longrightarrow> distinct (top_indices argsort xs)"
  by (simp add: top_indices_def argsort_spec_distinct)

lemma length_top_indices:
  "argsort_spec argsort xs \<Longrightarrow> length (top_indices argsort xs) = min 5 (length xs)"
  by (simp add: top_indices_def argsort_spec_length min.commute)

lemma top_indices_cut:
  assumes "argsort_spec argsort xs" and "i < length xs"
    and "i \<notin> set (top_indices argsort xs)" and "j \<in> set (top_indices argsort xs)"
  shows "xs ! i \<le> xs ! j"
proof -
  let ?r = "rev (argsort xs)"
  have "sorted_wrt (\<lambda>i j. xs ! i \<le> xs ! j) (argsort xs)"
    using assms(1) by (simp add: argsort_spec_def sorted_map)
  then have "sorted_wrt (\<lambda>i j. xs ! j \<le> xs ! i) (take 5 ?r @ drop 5 ?r)"
    by (simp add: sorted_wrt_rev)
  then have le: "\<forall>a\<in>set (take 5 ?r). \<forall>b\<in>set (drop 5 ?r). xs ! b \<le> xs ! a"
    unfolding sorted_wrt_append by blast
  have "i \<in> set ?r" using assms(1,2) by (simp add: argsort_spec_set)
  then have "i \<in> set (take 5 ?r) \<union> set (drop 5 ?r)"
    by (metis append_take_drop_id set_append)
  then have "i \<in> set (drop 5 ?r)"
    using assms(3) by (simp add: top_indices_def)
  then show ?thesis
    using le assms(4) by (simp add: top_indices_def)
qed

lemma top_indices_short:
  assumes "argsort_spec argsort xs" and "length xs \<le> 5"
  shows "mset (map ((!) ys) (top_indices argsort xs)) = mset (map ((!) ys) [0..<length xs])"
proof -
  have "top_indices argsort xs = rev (argsort xs)"
    using assms by (simp add: top_indices_def argsort_spec_length)
  then have "mset (top_indices argsort xs) = mset [0..<length xs]"
    using assms(1) by (simp add: argsort_spec_mset)
  then show ?thesis
    by (metis mset_map)
qed

lemma embedding_result_fields:
  assumes "embedding_result p sims idx = Inr r"
  shows "idx < length (candidates p)" "idx < length (candidate_texts p)" "idx < length sims"
    "res_page_name r = candidates p ! idx" "res_keyword r = candidate_texts p ! idx"
    "similarity_score r = sims ! idx"
  using assms
  by (auto simp: embedding_result_def list_get_def split: if_splits sum.splits)

lemma embedding_result_total:
  assumes "TamilPagePredictor_init e kb = Inr p" and "idx < length (candidate_pairs kb)"
    and "length sims = length (candidate_pairs kb)"
  shows "\<exists>r. embedding_result p sims idx = Inr r"
proof -
  have c: "candidates p = map fst (candidate_pairs kb)"
    and t: "candidate_texts p = map snd (candidate_pairs kb)"
    and kb: "knowledge_base p = kb" and wf: "list_all has_fields kb"
    using assms(1) by (simp_all add: emb_init_Inr)
  obtain d where "get_page_description kb (fst (candidate_pairs kb ! idx)) = Inr d"
    using get_page_description_total [OF wf] by blast
  then show ?thesis
    using assms(2,3) by (simp add: embedding_result_def list_get_def c t kb)
qed

lemma predict_page_Inr_iff:
  "predict_page sim argsort p q = Inr rs \<longleftrightarrow>
     candidate_texts p \<noteq> [] \<and>
     list_all2 (\<lambda>idx r. embedding_result p (map (sim q) (candidate_texts p)) idx = Inr r)
       (top_indices argsort (map (sim q) (candidate_texts p))) rs"
  by (simp add: predict_page_def Let_def for_each_Inr_iff)

lemma predict_page_no_candidate:
  "candidate_texts p = [] \<Longrightarrow> predict_page sim argsort p q = Inl ValueError"
  by (simp add: predict_page_def)

lemma predict_page_total:
  assumes "TamilPagePredictor_init e kb = Inr p" and "candidate_pairs kb \<noteq> []"
    and "argsort_spec argsort (map (sim q) (candidate_texts p))"
  shows "\<exists>rs. predict_page sim argsort p q = Inr rs"
proof -
  have t: "candidate_texts p = map snd (candidate_pairs kb)"
    using assms(1) by (simp add: emb_init_Inr)
  have "\<exists>r. embedding_result p (map (sim q) (candidate_texts p)) idx = Inr r"
    if "idx \<in> set (top_indices argsort (map (sim q) (candidate_texts p)))" for idx
  proof -
    from that set_top_indices [OF assms(3)]
    have "idx < length (candidate_pairs kb)"
      by (auto simp: t)
    then show ?thesis
      by (rule embedding_result_total [OF assms(1)]) (simp add: t)
  qed
  then have "\<exists>rs. for_each (embedding_result p (map (sim q) (candidate_texts p)))
                (top_indices argsort (map (sim q) (candidate_texts p))) = Inr rs"
    by (rule for_each_total)
  then show ?thesis
    using assms(2) by (simp add: predict_page_def Let_def t)
qed

lemma predict_page_pairs:
  assumes "TamilPagePredictor_init e kb = Inr p" and "predict_page sim argsort p q = Inr rs"
  shows "map (\<lambda>r. (res_page_name r, res_keyword r)) rs =
         map ((!) (candidate_pairs kb)) (top_indices argsort (map (sim q) (candidate_texts p)))"
    and "\<forall>idx\<in>set (top_indices argsort (map (sim q) (candidate_texts p))).
           idx < length (candidate_pairs kb)"
proof -
  have c: "candidates p = map fst (candidate_pairs kb)"
    and t: "candidate_texts p = map snd (candidate_pairs kb)"
    using assms(1) by (simp_all add: emb_init_Inr)
  let ?sims = "map (sim q) (candidate_texts p)"
  have "list_all2 (\<lambda>idx r. embedding_result p ?sims idx = Inr r) (top_indices argsort ?sims) rs"
    using assms(2) unfolding predict_page_Inr_iff by simp
  then have "list_all2 (\<lambda>idx r. (res_page_name r, res_keyword r) = candidate_pairs kb ! idx
        \<and> idx < length (candidate_pairs kb)) (top_indices argsort ?sims) rs"
  proof (rule list_all2_mono)
    fix idx r
    assume h: "embedding_result p ?sims idx = Inr r"
    from embedding_result_fields [OF h]
    show "(res_page_name r, res_keyword r) = candidate_pairs kb ! idx
        \<and> idx < length (candidate_pairs kb)"
      by (simp add: c t prod_eq_iff)
  qed
  then show "map (\<lambda>r. (res_page_name r, res_keyword r)) rs =
         map ((!) (candidate_pairs kb)) (top_indices argsort ?sims)"
    and "\<forall>idx\<in>set (top_indices argsort ?sims). idx < length (candidate_pairs kb)"
    by (induction rule: list_all2_induct) auto
qed

subsection \<open>Evaluation on concrete catalogs\<close>

lemmas eval_defs =
  simple_predictions_def embedding_predictions_def result_pages_def new_simple_def new_embedding_def
  page_record_def nameless_def overlap_sim_def two_pages_def six_pages_def
  SimpleTamilPagePredictor_init_def prepare_keyword_index_def TamilPagePredictor_init_def
  prepare_candidates_def predict_page_simple_def predict_page_def page_scores_def score_query_def
  score_word_def score_keyword_def bump_def word_matches_def lower_def lower_char_def split_def
  isspace_def sorted_pages_def simple_result_def embedding_result_def matching_keyword_def
  dict_get_def list_get_def top_indices_def stable_argsort_def any_match_def candidate_pairs_def
  catalog_order_def

subsection \<open>Pages of the catalog and pages of the results\<close>

lemma entries_name_in_catalog:
  "e \<in> set (entries kb) \<Longrightarrow> \<exists>f\<in>set kb. page_name f = Some (fst e) \<and> keywords_list f = Some (snd e)"
  by (induction kb) (auto split: option.splits)

lemma entries_Nil_iff: "list_all has_fields kb \<Longrightarrow> entries kb = [] \<longleftrightarrow> kb = []"
  by (cases kb) (auto simp: has_fields_def)

lemma loaded_page_order:
  assumes "SimpleTamilPagePredictor_init s kb = Inr p"
  shows "map fst (page_keywords p) = catalog_order kb"
  using assms by (simp add: simple_init_Inr map_fst_fold_dict_set catalog_order_def)

lemma set_catalog_order: "set (catalog_order kb) = fst ` set (entries kb)"
  using keys_fold_dict_set [of "entries kb" "[]"] map_fst_fold_dict_set [of "entries kb" "[]"]
  by (simp add: catalog_order_def flip: set_map)

lemma distinct_catalog_order: "distinct (catalog_order kb)"
  using distinct_fold_dict_set [of "[]" "entries kb"] map_fst_fold_dict_set [of "entries kb" "[]"]
  by (simp add: catalog_order_def)

lemma loaded_page_scores:
  assumes "SimpleTamilPagePredictor_init s kb = Inr p"
  shows "any_match kb ws \<Longrightarrow> page_scores p ws = score_query (keyword_to_page p) ws"
    and "\<not> any_match kb ws \<Longrightarrow> page_scores p ws = map (\<lambda>n. (n, 0)) (catalog_order kb)"
proof -
  have nil: "score_query (keyword_to_page p) ws = [] \<longleftrightarrow> \<not> any_match kb ws"
    unfolding loaded_scores_Nil [OF assms] any_match_iff_hits by auto
  show "any_match kb ws \<Longrightarrow> page_scores p ws = score_query (keyword_to_page p) ws"
    using nil by (simp add: page_scores_def)
  show "\<not> any_match kb ws \<Longrightarrow> page_scores p ws = map (\<lambda>n. (n, 0)) (catalog_order kb)"
    using nil by (simp add: page_scores_def flip: loaded_page_order [OF assms])
qed

lemma page_scores_not_Nil:
  assumes "SimpleTamilPagePredictor_init s kb = Inr p" and "kb \<noteq> []"
  shows "page_scores p ws \<noteq> []"
proof (cases "any_match kb ws")
  case True
  then show ?thesis
    using loaded_page_scores(1) [OF assms(1) True] loaded_scores_Nil [OF assms(1), of ws]
    by (auto simp: any_match_iff_hits)
next
  case False
  have "list_all has_fields kb" using assms(1) by (simp add: simple_init_Inr)
  then have "entries kb \<noteq> []" using assms(2) by (simp add: entries_Nil_iff)
  then have "catalog_order kb \<noteq> []"
    using set_catalog_order [of kb] by (cases "catalog_order kb") auto
  then show ?thesis using loaded_page_scores(2) [OF assms(1) False] by simp
qed

lemma length_predict_simple:
  assumes "predict_page_simple p q = Inr rs"
  shows "length rs = min 5 (length (page_scores p (split (lower q))))"
proof -
  have "length (map res_page_name rs) = min 5 (length (page_scores p (split (lower q))))"
    unfolding predict_simple_names [OF assms] by (simp add: length_sorted_pages min.commute)
  then show ?thesis by simp
qed

lemma length_predict_page:
  assumes "predict_page sim argsort p q = Inr rs"
  shows "length rs = length (top_indices argsort (map (sim q) (candidate_texts p)))"
  using assms unfolding predict_page_Inr_iff
  by (auto dest!: list_all2_lengthD)

lemma two_pages_simple_loaded: "SimpleTamilPagePredictor_init new_simple two_pages = Inr two_pages_simple"
  by (simp add: eval_defs two_pages_simple_def)

lemma two_pages_embedding_loaded: "TamilPagePredictor_init new_embedding two_pages = Inr two_pages_embedding"
  by (simp add: eval_defs two_pages_embedding_def)

lemma list_all2_rightD: "list_all2 P xs ys \<Longrightarrow> y \<in> set ys \<Longrightarrow> \<exists>x\<in>set xs. P x y"
  by (induction rule: list_all2_induct) auto

lemma predict_simple_source:
  assumes "predict_page_simple p q = Inr rs" and "r \<in> set rs"
  shows "\<exists>ps\<in>set (page_scores p (split (lower q))). simple_result p (split (lower q)) ps = Inr r"
proof -
  from assms obtain ps where "ps \<in> set (take 5 (sorted_pages (page_scores p (split (lower q)))))"
    and "simple_result p (split (lower q)) ps = Inr r"
    unfolding predict_simple_Inr_iff by (blast dest: list_all2_rightD)
  then show ?thesis using set_sorted_pages by (blast dest: in_set_takeD)
qed

lemma predict_page_source:
  assumes "TamilPagePredictor_init e kb = Inr p" and "predict_page sim argsort p q = Inr rs"
    and "r \<in> set rs"
  shows "(res_page_name r, res_keyword r) \<in> set (candidate_pairs kb)"
proof -
  let ?ranks = "top_indices argsort (map (sim q) (candidate_texts p))"
  have "(res_page_name r, res_keyword r) \<in> set (map (\<lambda>r. (res_page_name r, res_keyword r)) rs)"
    using assms(3) by (simp add: image_iff) blast
  then obtain idx where "idx \<in> set ?ranks"
    and eq: "(res_page_name r, res_keyword r) = candidate_pairs kb ! idx"
    unfolding predict_page_pairs(1) [OF assms(1,2)] by auto
  then have "idx < length (candidate_pairs kb)"
    using predict_page_pairs(2) [OF assms(1,2)] by blast
  then show ?thesis unfolding eq by simp
qed

lemma candidate_pairs_mem:
  "(name, k) \<in> set (candidate_pairs kb) \<longleftrightarrow> (\<exists>e\<in>set (entries kb). fst e = name \<and> k \<in> set (snd e))"
  by (auto simp: candidate_pairs_def)

lemma six_pages_simple_loaded: "SimpleTamilPagePredictor_init new_simple six_pages = Inr six_pages_simple"
  by (simp add: eval_defs six_pages_simple_def)

lemma loaded_has_fields: "SimpleTamilPagePredictor_init s kb = Inr p \<Longrightarrow> list_all has_fields kb"
  by (simp add: simple_init_Inr)

lemma scored_pages_set:
  assumes "SimpleTamilPagePredictor_init s kb = Inr p" and "any_match kb ws"
  shows "fst ` set (page_scores p ws) = {page. 0 < hit_pairs kb ws page}"
proof -
  have "page \<in> fst ` set (page_scores p ws) \<longleftrightarrow> 0 < hit_pairs kb ws page" for page
  proof -
    have "page \<in> fst ` set (page_scores p ws) \<longleftrightarrow>
          (\<exists>n. (page, n) \<in> set (score_query (keyword_to_page p) ws))"
      unfolding loaded_page_scores(1) [OF assms] by (force simp: image_iff)
    also have "\<dots> \<longleftrightarrow> 0 < hits (entries kb) ws page"
      unfolding loaded_scores_mem [OF assms(1)] by simp
    finally show ?thesis
      by (simp add: hit_pairs_eq_hits [OF loaded_has_fields [OF assms(1)]])
  qed
  then show ?thesis by blast
qed

lemma no_match_names:
  assumes "SimpleTamilPagePredictor_init s kb = Inr p"
    and "\<not> any_match kb (split (lower q))" and "predict_page_simple p q = Inr rs"
  shows "map res_page_name rs = take 5 (catalog_order kb)"
proof -
  let ?ws = "split (lower q)"
  have ps: "page_scores p ?ws = map (\<lambda>name. (name, 0)) (catalog_order kb)"
    by (rule loaded_page_scores(2) [OF assms(1,2)])
  have zero: "\<forall>x\<in>set (page_scores p ?ws). snd x = 0"
    unfolding ps by auto
  have "map res_page_name rs = map fst (take 5 (page_scores p ?ws))"
    using predict_simple_names [OF assms(3)] sorted_pages_zero [OF zero] by simp
  then show ?thesis
    unfolding ps by (simp add: take_map comp_def)
qed

lemma simple_names_in_catalog:
  assumes "SimpleTamilPagePredictor_init s kb = Inr p" and "predict_page_simple p q = Inr rs"
    and "r \<in> set rs"
  shows "\<exists>f\<in>set kb. page_name f = Some (res_page_name r)"
proof -
  from predict_simple_source [OF assms(2,3)] obtain x where
    x: "x \<in> set (page_scores p (split (lower q)))"
    and r: "simple_result p (split (lower q)) x = Inr r" by blast
  from x have "(fst x, snd x) \<in> set (page_scores p (split (lower q)))" by simp
  from loaded_page_scores_mem(2) [OF assms(1) this] obtain e where
    "e \<in> set (entries kb)" "fst e = fst x" by auto
  then show ?thesis
    using entries_name_in_catalog [of e kb] simple_result_fields(1) [OF r] by auto
qed

lemma embedding_pairs_in_catalog:
  assumes "TamilPagePredictor_init e kb = Inr p" and "predict_page sim argsort p q = Inr rs" and "r \<in> set rs"
  shows "\<exists>f\<in>set kb. page_name f = Some (res_page_name r)
           \<and> (\<exists>kws. keywords_list f = Some kws \<and> res_keyword r \<in> set kws)"
proof -
  from predict_page_source [OF assms] obtain en where
    "en \<in> set (entries kb)" "fst en = res_page_name r" "res_keyword r \<in> set (snd en)"
    unfolding candidate_pairs_mem by blast
  then show ?thesis
    using entries_name_in_catalog [of en kb] by auto
qed

section \<open>The properties\<close>

subsection \<open>C1: a loaded predictor returns a non-empty list\<close>

text \<open>
  C1. The claim: for every catalog with at least one page, \<^verbatim>\<open>predict_page\<close> returns a
  non-empty list for any query, under both matchers, also when every page has an empty
  keyword list. The lexical matcher does so: with no hit it falls back to all pages. The
  embedding matcher ranks candidates, one per keyword, so its result is a non-empty list
  exactly when the catalog has a keyword at all; this holds for every \<open>argsort\<close> that meets
  its contract.
\<close>

theorem predict_nonempty:
  "(SimpleTamilPagePredictor_init s kb = Inr p \<and> kb \<noteq> [] \<longrightarrow>
      (\<exists>r rs. predict_page_simple p q = Inr (r # rs)))
   \<and> (TamilPagePredictor_init e kb = Inr p'
        \<and> argsort_spec argsort (map (sim q) (candidate_texts p')) \<longrightarrow>
      ((\<exists>r rs. predict_page sim argsort p' q = Inr (r # rs)) \<longleftrightarrow> candidate_pairs kb \<noteq> []))"
proof (intro conjI impI)
  assume h: "SimpleTamilPagePredictor_init s kb = Inr p \<and> kb \<noteq> []"
  then have l: "SimpleTamilPagePredictor_init s kb = Inr p" and ne: "kb \<noteq> []" by auto
  obtain rs where rs: "predict_page_simple p q = Inr rs"
    using predict_simple_total [OF l] by blast
  have "page_scores p (split (lower q)) \<noteq> []"
    by (rule page_scores_not_Nil [OF l ne])
  then have "length rs \<noteq> 0"
    unfolding length_predict_simple [OF rs] by simp
  then show "\<exists>r rs. predict_page_simple p q = Inr (r # rs)"
    using rs by (cases rs) auto
next
  assume h: "TamilPagePredictor_init e kb = Inr p'
        \<and> argsort_spec argsort (map (sim q) (candidate_texts p'))"
  then have l: "TamilPagePredictor_init e kb = Inr p'"
    and a: "argsort_spec argsort (map (sim q) (candidate_texts p'))" by auto
  have t: "candidate_texts p' = map snd (candidate_pairs kb)"
    using l by (simp add: emb_init_Inr)
  show "(\<exists>r rs. predict_page sim argsort p' q = Inr (r # rs)) \<longleftrightarrow> candidate_pairs kb \<noteq> []"
  proof (cases "candidate_pairs kb = []")
    case True
    then have "predict_page sim argsort p' q = Inl ValueError"
      by (simp add: predict_page_no_candidate t)
    then show ?thesis using True by simp
  next
    case False
    obtain rs where rs: "predict_page sim argsort p' q = Inr rs"
      using predict_page_total [where sim = sim and q = q, OF l False a] by blast
    have "length rs = min 5 (length (candidate_pairs kb))"
      using length_predict_page [OF rs] length_top_indices [OF a] by (simp add: t)
    then have "rs \<noteq> []" using False by (cases "candidate_pairs kb") auto
    then show ?thesis using rs False by (cases rs) auto
  qed
qed

text \<open>C1, an instance: the two-page catalog, loaded by both predictors.\<close>

theorem predict_nonempty_witness:
  "SimpleTamilPagePredictor_init new_simple two_pages = Inr two_pages_simple \<and> two_pages \<noteq> []
   \<and> (\<exists>r rs. predict_page_simple two_pages_simple ''water'' = Inr (r # rs))
   \<and> TamilPagePredictor_init new_embedding two_pages = Inr two_pages_embedding
   \<and> argsort_spec stable_argsort (map (overlap_sim ''water'') (candidate_texts two_pages_embedding))
   \<and> candidate_pairs two_pages \<noteq> []
   \<and> (\<exists>r rs. predict_page overlap_sim stable_argsort two_pages_embedding ''water'' = Inr (r # rs))"
proof -
  have a: "argsort_spec stable_argsort (map (overlap_sim ''water'') (candidate_texts two_pages_embedding))"
    by (simp add: argsort_spec_def eval_defs two_pages_embedding_def)
  have c: "candidate_pairs two_pages \<noteq> []"
    by (simp add: eval_defs)
  show ?thesis
    using predict_nonempty [where s = new_simple and kb = two_pages and p = two_pages_simple
        and q = "''water''" and e = new_embedding and p' = two_pages_embedding
        and sim = overlap_sim and argsort = stable_argsort]
      two_pages_simple_loaded two_pages_embedding_loaded a c
    by (simp add: two_pages_def)
qed

text \<open>
  C1, the claim as stated fails: a catalog of one page without keywords has no candidate,
  and the embedding matcher predicts no page for it: the call raises.
\<close>

theorem embedding_empty_without_keywords:
  "result_pages (embedding_predictions overlap_sim stable_argsort new_embedding
      [page_record ''unused'' []] ''water'') = []
   \<and> embedding_predictions overlap_sim stable_argsort new_embedding
      [page_record ''unused'' []] ''water'' = Inl ValueError"
  by (simp add: eval_defs)

subsection \<open>C2: a query without any hit\<close>

text \<open>
  C2. The claim: when no query word stands in substring containment with any keyword, the
  lexical matcher gives every known page the score 0 and returns all pages, for every
  catalog size. Every page does get the score 0, in the order in which the page names
  first occur in the catalog, and the stable sort keeps that order; but the result is cut
  by \<^verbatim>\<open>sorted_pages[:5]\<close>, so the pages returned are the first five of them, and all
  pages only when the catalog has at most five.
\<close>

theorem no_match_returns_first_five:
  assumes "SimpleTamilPagePredictor_init s kb = Inr p"
    and "\<not> any_match kb (split (lower q))"
  shows "page_scores p (split (lower q)) = map (\<lambda>name. (name, 0)) (catalog_order kb)
    \<and> (\<exists>rs. predict_page_simple p q = Inr rs
          \<and> map res_page_name rs = take 5 (catalog_order kb)
          \<and> (\<forall>r\<in>set rs. similarity_score r = 0))
    \<and> distinct (catalog_order kb)
    \<and> set (catalog_order kb) = {name. \<exists>f\<in>set kb. page_name f = Some name}"
proof -
  let ?ws = "split (lower q)"
  have ps: "page_scores p ?ws = map (\<lambda>name. (name, 0)) (catalog_order kb)"
    by (rule loaded_page_scores(2) [OF assms])
  obtain rs where rs: "predict_page_simple p q = Inr rs"
    using predict_simple_total [OF assms(1)] by blast
  have zero: "\<forall>x\<in>set (page_scores p ?ws). snd x = 0"
    unfolding ps by auto
  have "map res_page_name rs = map fst (take 5 (page_scores p ?ws))"
    using predict_simple_names [OF rs] sorted_pages_zero [OF zero] by simp
  then have names: "map res_page_name rs = take 5 (catalog_order kb)"
    unfolding ps by (simp add: take_map comp_def)
  have scores: "similarity_score r = 0" if "r \<in> set rs" for r
  proof -
    from predict_simple_source [OF rs that] obtain x where
      x: "x \<in> set (page_scores p ?ws)" and r: "simple_result p ?ws x = Inr r" by blast
    from zero x have "snd x = 0" by blast
    then show ?thesis using simple_result_fields(2) [OF r] by simp
  qed
  have wf: "list_all has_fields kb" using assms(1) by (simp add: simple_init_Inr)
  have cat: "set (catalog_order kb) = {name. \<exists>f\<in>set kb. page_name f = Some name}"
  proof (intro set_eqI iffI)
    fix name
    assume "name \<in> set (catalog_order kb)"
    then obtain e where "e \<in> set (entries kb)" "fst e = name"
      unfolding set_catalog_order by auto
    then show "name \<in> {name. \<exists>f\<in>set kb. page_name f = Some name}"
      using entries_name_in_catalog by blast
  next
    fix name
    assume "name \<in> {name. \<exists>f\<in>set kb. page_name f = Some name}"
    then obtain f where f: "f \<in> set kb" "page_name f = Some name" by blast
    then show "name \<in> set (catalog_order kb)"
      unfolding set_catalog_order using wf
      by (induction kb) (auto simp: has_fields_def image_iff)
  qed
  show ?thesis using ps rs names scores distinct_catalog_order cat by blast
qed

text \<open>
  C2, an instance: two pages and a query that hits neither.
\<close>

theorem no_match_returns_first_five_witness:
  "SimpleTamilPagePredictor_init new_simple two_pages = Inr two_pages_simple
   \<and> \<not> any_match two_pages (split (lower ''soil test''))
   \<and> page_scores two_pages_simple (split (lower ''soil test'')) = [(''irrigation'', 0), (''yield'', 0)]
   \<and> (\<exists>rs. predict_page_simple two_pages_simple ''soil test'' = Inr rs
        \<and> map res_page_name rs = [''irrigation'', ''yield'']
        \<and> (\<forall>r\<in>set rs. similarity_score r = 0))"
proof -
  have a: "\<not> any_match two_pages (split (lower ''soil test''))"
    by (simp add: eval_defs)
  have c: "catalog_order two_pages = [''irrigation'', ''yield'']"
    by (simp add: eval_defs)
  show ?thesis
    using no_match_returns_first_five [OF two_pages_simple_loaded a] a two_pages_simple_loaded
    by (simp add: c)
qed

text \<open>
  C2, the claim as stated fails: of six pages without a hit, the sixth is not returned.
\<close>

theorem no_match_returns_five_of_six:
  "\<not> any_match six_pages (split (lower ''zebra''))
   \<and> catalog_order six_pages = [''a'', ''b'', ''c'', ''d'', ''e'', ''f'']
   \<and> result_pages (simple_predictions new_simple six_pages ''zebra'') = [''a'', ''b'', ''c'', ''d'', ''e'']"
  by (simp add: eval_defs)

subsection \<open>C3: loading a malformed or empty catalog\<close>

text \<open>
  C3. The claim: loading fails when a page record lacks \<^verbatim>\<open>page_name\<close> or when the
  catalog has zero pages, and then no index is published. The first half holds, the error
  being Python's \<^verbatim>\<open>KeyError\<close>, which leaves the constructor so that no predictor (and
  no index) exists. The second half does not: neither loader looks at the number of pages,
  and the empty catalog loads into an empty index.
\<close>

theorem load_fails_without_page_name:
  "((\<exists>f\<in>set kb. page_name f = None) \<longrightarrow>
      SimpleTamilPagePredictor_init s kb = Inl KeyError \<and> TamilPagePredictor_init e kb = Inl KeyError)
   \<and> SimpleTamilPagePredictor_init s [] =
        Inr (s\<lparr>knowledge_base := [], keyword_to_page := [], page_keywords := []\<rparr>)
   \<and> TamilPagePredictor_init e [] =
        Inr (e\<lparr>knowledge_base := [], candidates := [], candidate_texts := []\<rparr>)"
proof (intro conjI impI)
  assume "\<exists>f\<in>set kb. page_name f = None"
  then have "\<not> list_all has_fields kb"
    by (auto simp: list_all_iff has_fields_def)
  then show "SimpleTamilPagePredictor_init s kb = Inl KeyError"
    and "TamilPagePredictor_init e kb = Inl KeyError"
    by (simp_all add: simple_init_Inl emb_init_Inl)
next
  show "SimpleTamilPagePredictor_init s [] =
        Inr (s\<lparr>knowledge_base := [], keyword_to_page := [], page_keywords := []\<rparr>)"
    by (simp add: SimpleTamilPagePredictor_init_def prepare_keyword_index_def)
  show "TamilPagePredictor_init e [] =
        Inr (e\<lparr>knowledge_base := [], candidates := [], candidate_texts := []\<rparr>)"
    by (simp add: TamilPagePredictor_init_def prepare_candidates_def)
qed

text \<open>
  C3, an instance: the second record has no \<^verbatim>\<open>page_name\<close>.
\<close>

theorem load_fails_without_page_name_witness:
  "(\<exists>f\<in>set [page_record ''yield'' [''harvest''], nameless]. page_name f = None)
   \<and> SimpleTamilPagePredictor_init new_simple [page_record ''yield'' [''harvest''], nameless] = Inl KeyError
   \<and> TamilPagePredictor_init new_embedding [page_record ''yield'' [''harvest''], nameless] = Inl KeyError"
  using load_fails_without_page_name [where kb = "[page_record ''yield'' [''harvest''], nameless]"
      and s = new_simple and e = new_embedding]
  by (simp add: nameless_def)

text \<open>
  C3, the claim as stated fails: both predictors load the catalog with zero pages.
\<close>

theorem load_succeeds_on_empty_catalog:
  "SimpleTamilPagePredictor_init new_simple [] = Inr new_simple
   \<and> TamilPagePredictor_init new_embedding [] = Inr new_embedding"
  by (simp add: eval_defs)

subsection \<open>C4: the order of the embedding ranking\<close>

text \<open>
  C4. The claim: the candidate indices are ordered by descending similarity, and of two
  candidates of equal similarity the one with the smaller index comes first. The first
  half holds, for every \<open>argsort\<close> that meets its contract and every catalog with a
  candidate: the ranked indices are distinct indices of candidates, their similarities do
  not increase, no candidate left out is more similar than one that is ranked, and the
  results follow the ranked indices field by field. The second half does not hold: the
  code has no tie-break. \<^verbatim>\<open>np.argsort(...)[::-1]\<close> reverses whatever order argsort gives to
  equal values, and its default sort promises none.
\<close>

theorem ranking_descends_by_similarity:
  fixes sim :: "string \<Rightarrow> string \<Rightarrow> 's::linorder"
  assumes "TamilPagePredictor_init e kb = Inr p" and "candidate_pairs kb \<noteq> []"
    and "argsort_spec argsort (map (sim q) (candidate_texts p))"
  shows "\<exists>rs. predict_page sim argsort p q = Inr rs \<and>
    (let sims = map (sim q) (candidate_texts p); ranks = top_indices argsort sims
     in sorted_wrt (\<lambda>i j. sims ! j \<le> sims ! i) ranks
        \<and> distinct ranks \<and> (\<forall>i\<in>set ranks. i < length sims)
        \<and> (\<forall>i<length sims. i \<notin> set ranks \<longrightarrow> (\<forall>j\<in>set ranks. sims ! i \<le> sims ! j))
        \<and> map res_page_name rs = map ((!) (candidates p)) ranks
        \<and> map res_keyword rs = map ((!) (candidate_texts p)) ranks
        \<and> map similarity_score rs = map ((!) sims) ranks
        \<and> sorted_wrt (\<lambda>a b. b \<le> a) (map similarity_score rs))"
proof -
  obtain rs where rs: "predict_page sim argsort p q = Inr rs"
    using predict_page_total [where sim = sim and q = q, OF assms] by blast
  let ?sims = "map (sim q) (candidate_texts p)"
  let ?ranks = "top_indices argsort ?sims"
  have all2: "list_all2 (\<lambda>idx r. embedding_result p ?sims idx = Inr r) ?ranks rs"
    using rs unfolding predict_page_Inr_iff by simp
  have "list_all2 (\<lambda>idx r. res_page_name r = candidates p ! idx
          \<and> res_keyword r = candidate_texts p ! idx \<and> similarity_score r = ?sims ! idx) ?ranks rs"
    using all2
  proof (rule list_all2_mono)
    fix idx r
    assume "embedding_result p ?sims idx = Inr r"
    from embedding_result_fields(4,5,6) [OF this]
    show "res_page_name r = candidates p ! idx
          \<and> res_keyword r = candidate_texts p ! idx \<and> similarity_score r = ?sims ! idx"
      by simp
  qed
  then have fields: "map res_page_name rs = map ((!) (candidates p)) ?ranks"
    "map res_keyword rs = map ((!) (candidate_texts p)) ?ranks"
    "map similarity_score rs = map ((!) ?sims) ?ranks"
    by (induction rule: list_all2_induct) auto
  have order: "sorted_wrt (\<lambda>i j. ?sims ! j \<le> ?sims ! i) ?ranks"
    by (rule top_indices_descending [OF assms(3)])
  then have scores: "sorted_wrt (\<lambda>a b. b \<le> a) (map similarity_score rs)"
    unfolding fields(3) by (simp add: sorted_wrt_map)
  have dist: "distinct ?ranks"
    by (rule distinct_top_indices [OF assms(3)])
  have range: "\<forall>i\<in>set ?ranks. i < length ?sims"
    using set_top_indices [OF assms(3)] by auto
  have cut: "\<forall>i<length ?sims. i \<notin> set ?ranks \<longrightarrow> (\<forall>j\<in>set ?ranks. ?sims ! i \<le> ?sims ! j)"
    using top_indices_cut [OF assms(3)] by blast
  show ?thesis
    unfolding Let_def using rs order dist range cut fields scores by blast
qed

text \<open>
  C4, an instance: the two candidates of the two-page catalog, of similarity 3 and 4, with
  the stable sort as \<open>argsort\<close>.
\<close>

theorem ranking_descends_by_similarity_witness:
  "TamilPagePredictor_init new_embedding two_pages = Inr two_pages_embedding
   \<and> candidate_pairs two_pages \<noteq> []
   \<and> argsort_spec stable_argsort (map (overlap_sim ''heat'') (candidate_texts two_pages_embedding))
   \<and> (\<exists>rs. predict_page overlap_sim stable_argsort two_pages_embedding ''heat'' = Inr rs
        \<and> map res_page_name rs = [''yield'', ''irrigation'']
        \<and> map res_keyword rs = [''harvest'', ''water'']
        \<and> map similarity_score rs = [4, 3])"
proof -
  have a: "argsort_spec stable_argsort (map (overlap_sim ''heat'') (candidate_texts two_pages_embedding))"
    by (simp add: argsort_spec_def eval_defs two_pages_embedding_def)
  have c: "candidate_pairs two_pages \<noteq> []"
    by (simp add: eval_defs)
  have t: "top_indices stable_argsort (map (overlap_sim ''heat'') (candidate_texts two_pages_embedding)) = [1, 0]"
    by (simp add: eval_defs two_pages_embedding_def)
  have "\<exists>rs. predict_page overlap_sim stable_argsort two_pages_embedding ''heat'' = Inr rs
        \<and> map res_page_name rs = [''yield'', ''irrigation'']
        \<and> map res_keyword rs = [''harvest'', ''water'']
        \<and> map similarity_score rs = [4, 3]"
    using ranking_descends_by_similarity [where sim = overlap_sim and q = "''heat''",
        OF two_pages_embedding_loaded c a]
    by (simp add: t Let_def) (auto simp: two_pages_embedding_def overlap_sim_def)
  then show ?thesis
    using two_pages_embedding_loaded a c by blast
qed

text \<open>
  C4, the claim as stated fails: argsort leaves two equal values in index order, the
  reversal puts the second candidate first, and the results come with the later of the two
  equal candidates on top.
\<close>

theorem equal_similarity_ranks_later_candidate_first:
  "map (overlap_sim ''zz'') [''clay'', ''sand''] = [0, 0]
   \<and> stable_argsort (map (overlap_sim ''zz'') [''clay'', ''sand'']) = [0, 1]
   \<and> top_indices stable_argsort (map (overlap_sim ''zz'') [''clay'', ''sand'']) = [1, 0]
   \<and> embedding_predictions overlap_sim stable_argsort new_embedding
        [page_record ''soil'' [''clay'', ''sand'']] ''zz'' =
       Inr [\<lparr>res_page_name = ''soil'', res_keyword = ''sand'', similarity_score = 0, res_description = ''''\<rparr>,
            \<lparr>res_page_name = ''soil'', res_keyword = ''clay'', similarity_score = 0, res_description = ''''\<rparr>]"
  by (simp add: eval_defs)

subsection \<open>C5: at most five results, all of them pages of the catalog\<close>

text \<open>
  C5. The claim: for every non-empty catalog, under both matchers at most five results are
  returned, each result names a page of the catalog, and when fewer than five candidates
  exist all of them are returned.

  For the lexical matcher and a catalog with at least one page: the call returns, the
  results are the first five entries of the scoring map sorted by descending score, each
  names a page of the catalog, and all entries are returned when there are at most five.
  But the entries of the scoring map are pages, those with a hit when there is any hit and
  all pages otherwise: a candidate whose page has no hit is left out however few
  candidates exist.

  For the embedding matcher, every \<open>argsort\<close> that meets its contract, and a catalog with
  at least one candidate: the call returns, the results are the candidates at the first
  five of the reversed argsort indices, each names a page of the catalog, and every
  candidate is returned when there are at most five. For a catalog without any candidate
  the call does not return a list.
\<close>

theorem predict_at_most_five:
  "(SimpleTamilPagePredictor_init s kb = Inr p \<and> kb \<noteq> [] \<longrightarrow>
      (\<exists>rs. predict_page_simple p q = Inr rs \<and> length rs \<le> 5
         \<and> (\<forall>r\<in>set rs. \<exists>f\<in>set kb. page_name f = Some (res_page_name r))
         \<and> map res_page_name rs = map fst (take 5 (sorted_pages (page_scores p (split (lower q)))))
         \<and> sorted_wrt (\<lambda>x y. snd y \<le> snd x) (sorted_pages (page_scores p (split (lower q))))
         \<and> mset (sorted_pages (page_scores p (split (lower q)))) = mset (page_scores p (split (lower q)))
         \<and> length rs = min 5 (length (page_scores p (split (lower q))))
         \<and> (length (page_scores p (split (lower q))) \<le> 5 \<longrightarrow>
              set (map res_page_name rs) = fst ` set (page_scores p (split (lower q))))
         \<and> fst ` set (page_scores p (split (lower q))) =
             (if any_match kb (split (lower q))
              then {name. 0 < hit_pairs kb (split (lower q)) name} else set (catalog_order kb))))
   \<and> (TamilPagePredictor_init e kb = Inr p' \<and> candidate_pairs kb \<noteq> []
        \<and> argsort_spec argsort (map (sim q) (candidate_texts p')) \<longrightarrow>
      (\<exists>rs. predict_page sim argsort p' q = Inr rs \<and> length rs \<le> 5
         \<and> (\<forall>r\<in>set rs. \<exists>f\<in>set kb. page_name f = Some (res_page_name r))
         \<and> map (\<lambda>r. (res_page_name r, res_keyword r)) rs =
             map ((!) (candidate_pairs kb)) (take 5 (rev (argsort (map (sim q) (candidate_texts p')))))
         \<and> length rs = min 5 (length (candidate_pairs kb))
         \<and> (length (candidate_pairs kb) \<le> 5 \<longrightarrow>
              mset (map (\<lambda>r. (res_page_name r, res_keyword r)) rs) = mset (candidate_pairs kb))))"
proof (intro conjI impI)
  assume "SimpleTamilPagePredictor_init s kb = Inr p \<and> kb \<noteq> []"
  then have l: "SimpleTamilPagePredictor_init s kb = Inr p" by simp
  let ?ws = "split (lower q)"
  obtain rs where rs: "predict_page_simple p q = Inr rs"
    using predict_simple_total [OF l] by blast
  have len: "length rs = min 5 (length (page_scores p ?ws))"
    by (rule length_predict_simple [OF rs])
  have names: "\<forall>r\<in>set rs. \<exists>f\<in>set kb. page_name f = Some (res_page_name r)"
    using simple_names_in_catalog [OF l rs] by blast
  have first: "map res_page_name rs = map fst (take 5 (sorted_pages (page_scores p ?ws)))"
    by (rule predict_simple_names [OF rs])
  have all: "set (map res_page_name rs) = fst ` set (page_scores p ?ws)"
    if "length (page_scores p ?ws) \<le> 5"
  proof -
    have "take 5 (sorted_pages (page_scores p ?ws)) = sorted_pages (page_scores p ?ws)"
      using that by (simp add: length_sorted_pages)
    then show ?thesis
      unfolding first by (simp add: set_sorted_pages)
  qed
  have scored: "fst ` set (page_scores p ?ws) =
      (if any_match kb ?ws then {name. 0 < hit_pairs kb ?ws name} else set (catalog_order kb))"
  proof (cases "any_match kb ?ws")
    case True
    then show ?thesis using scored_pages_set [OF l True] by simp
  next
    case False
    then show ?thesis
      unfolding loaded_page_scores(2) [OF l False] by (simp add: image_comp comp_def)
  qed
  show "\<exists>rs. predict_page_simple p q = Inr rs \<and> length rs \<le> 5
         \<and> (\<forall>r\<in>set rs. \<exists>f\<in>set kb. page_name f = Some (res_page_name r))
         \<and> map res_page_name rs = map fst (take 5 (sorted_pages (page_scores p ?ws)))
         \<and> sorted_wrt (\<lambda>x y. snd y \<le> snd x) (sorted_pages (page_scores p ?ws))
         \<and> mset (sorted_pages (page_scores p ?ws)) = mset (page_scores p ?ws)
         \<and> length rs = min 5 (length (page_scores p ?ws))
         \<and> (length (page_scores p ?ws) \<le> 5 \<longrightarrow>
              set (map res_page_name rs) = fst ` set (page_scores p ?ws))
         \<and> fst ` set (page_scores p ?ws) =
             (if any_match kb ?ws then {name. 0 < hit_pairs kb ?ws name} else set (catalog_order kb))"
    using rs len names first all scored sorted_sorted_pages [of "page_scores p ?ws"]
      mset_sorted_pages [of "page_scores p ?ws"]
    by (intro exI [of _ rs]) simp
next
  assume h: "TamilPagePredictor_init e kb = Inr p' \<and> candidate_pairs kb \<noteq> []
        \<and> argsort_spec argsort (map (sim q) (candidate_texts p'))"
  then have l: "TamilPagePredictor_init e kb = Inr p'" and ne: "candidate_pairs kb \<noteq> []"
    and a: "argsort_spec argsort (map (sim q) (candidate_texts p'))" by auto
  let ?sims = "map (sim q) (candidate_texts p')"
  obtain rs where rs: "predict_page sim argsort p' q = Inr rs"
    using predict_page_total [where sim = sim and q = q, OF l ne a] by blast
  have t: "candidate_texts p' = map snd (candidate_pairs kb)"
    using l by (simp add: emb_init_Inr)
  have len: "length rs = min 5 (length (candidate_pairs kb))"
    using length_predict_page [OF rs] length_top_indices [OF a] by (simp add: t)
  have names: "\<forall>r\<in>set rs. \<exists>f\<in>set kb. page_name f = Some (res_page_name r)"
    using embedding_pairs_in_catalog [OF l rs] by blast
  have first: "map (\<lambda>r. (res_page_name r, res_keyword r)) rs =
      map ((!) (candidate_pairs kb)) (take 5 (rev (argsort ?sims)))"
    using predict_page_pairs(1) [OF l rs] by (simp add: top_indices_def)
  have all: "mset (map (\<lambda>r. (res_page_name r, res_keyword r)) rs) = mset (candidate_pairs kb)"
    if "length (candidate_pairs kb) \<le> 5"
  proof -
    have "mset (map ((!) (candidate_pairs kb)) (top_indices argsort ?sims))
          = mset (map ((!) (candidate_pairs kb)) [0..<length ?sims])"
      by (rule top_indices_short [OF a]) (simp add: that t)
    also have "\<dots> = mset (candidate_pairs kb)"
      by (simp add: map_nth t)
    finally show ?thesis
      unfolding predict_page_pairs(1) [OF l rs] .
  qed
  show "\<exists>rs. predict_page sim argsort p' q = Inr rs \<and> length rs \<le> 5
         \<and> (\<forall>r\<in>set rs. \<exists>f\<in>set kb. page_name f = Some (res_page_name r))
         \<and> map (\<lambda>r. (res_page_name r, res_keyword r)) rs =
             map ((!) (candidate_pairs kb)) (take 5 (rev (argsort ?sims)))
         \<and> length rs = min 5 (length (candidate_pairs kb))
         \<and> (length (candidate_pairs kb) \<le> 5 \<longrightarrow>
              mset (map (\<lambda>r. (res_page_name r, res_keyword r)) rs) = mset (candidate_pairs kb))"
    using rs len names first all by (intro exI [of _ rs]) simp
qed

text \<open>
  C5, an instance: six pages for the lexical matcher, two candidates for the embedding
  matcher with the stable sort as \<open>argsort\<close>.
\<close>

theorem predict_at_most_five_witness:
  "SimpleTamilPagePredictor_init new_simple six_pages = Inr six_pages_simple \<and> six_pages \<noteq> []
   \<and> (\<exists>rs. predict_page_simple six_pages_simple ''zebra'' = Inr rs \<and> length rs \<le> 5
        \<and> (\<forall>r\<in>set rs. \<exists>f\<in>set six_pages. page_name f = Some (res_page_name r))
        \<and> length rs = min 5 (length (page_scores six_pages_simple (split (lower ''zebra'')))))
   \<and> result_pages (predict_page_simple six_pages_simple ''zebra'') = [''a'', ''b'', ''c'', ''d'', ''e'']
   \<and> TamilPagePredictor_init new_embedding two_pages = Inr two_pages_embedding
   \<and> candidate_pairs two_pages \<noteq> [] \<and> length (candidate_pairs two_pages) \<le> 5
   \<and> argsort_spec stable_argsort (map (overlap_sim ''heat'') (candidate_texts two_pages_embedding))
   \<and> (\<exists>rs. predict_page overlap_sim stable_argsort two_pages_embedding ''heat'' = Inr rs
        \<and> length rs \<le> 5
        \<and> mset (map (\<lambda>r. (res_page_name r, res_keyword r)) rs) = mset (candidate_pairs two_pages))"
proof -
  have n: "six_pages \<noteq> []"
    by (simp add: six_pages_def)
  have c: "candidate_pairs two_pages \<noteq> []" "length (candidate_pairs two_pages) \<le> 5"
    by (simp_all add: eval_defs)
  have g: "argsort_spec stable_argsort (map (overlap_sim ''heat'') (candidate_texts two_pages_embedding))"
    by (simp add: argsort_spec_def eval_defs two_pages_embedding_def)
  have r: "result_pages (predict_page_simple six_pages_simple ''zebra'') = [''a'', ''b'', ''c'', ''d'', ''e'']"
    by (simp add: eval_defs six_pages_simple_def)
  from predict_at_most_five [where s = new_simple and kb = six_pages and p = six_pages_simple
      and q = "''zebra''"]
  have a: "\<exists>rs. predict_page_simple six_pages_simple ''zebra'' = Inr rs \<and> length rs \<le> 5
        \<and> (\<forall>r\<in>set rs. \<exists>f\<in>set six_pages. page_name f = Some (res_page_name r))
        \<and> length rs = min 5 (length (page_scores six_pages_simple (split (lower ''zebra''))))"
    using six_pages_simple_loaded n by blast
  from predict_at_most_five [where e = new_embedding and kb = two_pages and p' = two_pages_embedding
      and q = "''heat''" and sim = overlap_sim and argsort = stable_argsort]
  have b: "\<exists>rs. predict_page overlap_sim stable_argsort two_pages_embedding ''heat'' = Inr rs
        \<and> length rs \<le> 5
        \<and> mset (map (\<lambda>r. (res_page_name r, res_keyword r)) rs) = mset (candidate_pairs two_pages)"
    using two_pages_embedding_loaded c g by blast
  show ?thesis
    using a b c g n r six_pages_simple_loaded two_pages_embedding_loaded by blast
qed

text \<open>
  C5, the claim as stated fails. The two-page catalog has two candidates, and the lexical
  matcher returns only the page of one of them. A catalog of two pages without keywords is
  not empty, and the embedding matcher returns no list for it: the call raises.
\<close>

theorem lexical_omits_candidates_without_hit:
  "length (candidate_pairs two_pages) < 5
   \<and> (''yield'', ''harvest'') \<in> set (candidate_pairs two_pages)
   \<and> result_pages (simple_predictions new_simple two_pages ''water'') = [''irrigation'']
   \<and> embedding_predictions overlap_sim stable_argsort new_embedding
        [page_record ''unused'' [], page_record ''idle'' []] ''water'' = Inl ValueError"
  by (simp add: eval_defs)

subsection \<open>C6: the lexical score\<close>

text \<open>
  C6. For every loaded catalog with at least one page and every query the lexical matcher
  returns a non-empty list, and the score of each returned page is the number of pairs of
  a query word and a keyword occurrence of that page, such that the word is a substring of
  the case-folded keyword or the other way round, divided by the number of query words or
  by 1 if there is none. \<open>hit_pairs\<close> counts these pairs as the specification words them,
  with the library's \<open>sublist\<close> as the substring relation. The scoring map gives every
  page it holds this count; it holds the pages with a positive count when there is one and
  all pages otherwise; the results are its first five entries by descending count, and
  all of its pages when it has at most five. So every page with a hit is returned with its
  ratio unless five pages come before it. The quotient is the exact one, where Python
  returns the double nearest to it.
\<close>

theorem lexical_score_is_hit_ratio:
  assumes "SimpleTamilPagePredictor_init s kb = Inr p" and "kb \<noteq> []"
  shows "\<exists>rs. predict_page_simple p q = Inr rs \<and> rs \<noteq> []
     \<and> (\<forall>r\<in>set rs. similarity_score r =
          of_nat (hit_pairs kb (split (lower q)) (res_page_name r))
            / of_nat (max (length (split (lower q))) 1))
     \<and> (\<forall>x\<in>set (page_scores p (split (lower q))). snd x = hit_pairs kb (split (lower q)) (fst x))
     \<and> fst ` set (page_scores p (split (lower q))) =
          (if any_match kb (split (lower q))
           then {name. 0 < hit_pairs kb (split (lower q)) name} else set (catalog_order kb))
     \<and> map res_page_name rs = map fst (take 5 (sorted_pages (page_scores p (split (lower q)))))
     \<and> length rs = min 5 (length (page_scores p (split (lower q))))
     \<and> (length (page_scores p (split (lower q))) \<le> 5 \<longrightarrow>
          (\<forall>name\<in>fst ` set (page_scores p (split (lower q))). \<exists>r\<in>set rs. res_page_name r = name))"
proof -
  let ?ws = "split (lower q)"
  let ?ps = "page_scores p ?ws"
  obtain rs where rs: "predict_page_simple p q = Inr rs"
    using predict_simple_total [OF assms(1)] by blast
  have wf: "list_all has_fields kb"
    by (rule loaded_has_fields [OF assms(1)])
  have count: "snd x = hit_pairs kb ?ws (fst x)" if "x \<in> set ?ps" for x
  proof -
    from that have "(fst x, snd x) \<in> set ?ps" by simp
    from loaded_page_scores_mem(1) [OF assms(1) this]
    show ?thesis by (simp add: hit_pairs_eq_hits [OF wf])
  qed
  have ratio: "similarity_score r =
      of_nat (hit_pairs kb ?ws (res_page_name r)) / of_nat (max (length ?ws) 1)"
    if "r \<in> set rs" for r
  proof -
    from predict_simple_source [OF rs that] obtain x where
      x: "x \<in> set ?ps" and r: "simple_result p ?ws x = Inr r" by blast
    show ?thesis
      using simple_result_fields(1,2) [OF r] count [OF x] by simp
  qed
  have len: "length rs = min 5 (length ?ps)"
    by (rule length_predict_simple [OF rs])
  have "?ps \<noteq> []"
    by (rule page_scores_not_Nil [OF assms])
  then have ne: "rs \<noteq> []" using len by (cases "page_scores p (split (lower q))") auto
  have first: "map res_page_name rs = map fst (take 5 (sorted_pages ?ps))"
    by (rule predict_simple_names [OF rs])
  have scored: "fst ` set ?ps =
      (if any_match kb ?ws then {name. 0 < hit_pairs kb ?ws name} else set (catalog_order kb))"
  proof (cases "any_match kb ?ws")
    case True
    then show ?thesis using scored_pages_set [OF assms(1) True] by simp
  next
    case False
    then show ?thesis
      unfolding loaded_page_scores(2) [OF assms(1) False] by (simp add: image_comp comp_def)
  qed
  have all: "\<forall>name\<in>fst ` set ?ps. \<exists>r\<in>set rs. res_page_name r = name"
    if "length ?ps \<le> 5"
  proof -
    have "take 5 (sorted_pages ?ps) = sorted_pages ?ps"
      using that by (simp add: length_sorted_pages)
    then have "set (map res_page_name rs) = fst ` set ?ps"
      unfolding first by (simp add: set_sorted_pages)
    then show ?thesis by (metis (no_types, lifting) image_iff set_map)
  qed
  show ?thesis
    using rs ne ratio count scored first len all by (intro exI [of _ rs]) simp
qed

text \<open>
  C6, an instance: four query words, two of which hit the keyword of the first page and one
  the keyword of the second; both pages are returned, with the scores 2/4 and 1/4.
\<close>

theorem lexical_score_is_hit_ratio_witness:
  "SimpleTamilPagePredictor_init new_simple two_pages = Inr two_pages_simple \<and> two_pages \<noteq> []
   \<and> split (lower ''Water harvest WATER soil'') = [''water'', ''harvest'', ''water'', ''soil'']
   \<and> hit_pairs two_pages [''water'', ''harvest'', ''water'', ''soil''] ''irrigation'' = 2
   \<and> hit_pairs two_pages [''water'', ''harvest'', ''water'', ''soil''] ''yield'' = 1
   \<and> predict_page_simple two_pages_simple ''Water harvest WATER soil'' =
       Inr [\<lparr>res_page_name = ''irrigation'', res_keyword = ''water'', similarity_score = 1 / 2, res_description = ''''\<rparr>,
            \<lparr>res_page_name = ''yield'', res_keyword = ''harvest'', similarity_score = 1 / 4, res_description = ''''\<rparr>]
   \<and> (\<exists>rs. predict_page_simple two_pages_simple ''Water harvest WATER soil'' = Inr rs \<and> rs \<noteq> []
        \<and> (\<forall>r\<in>set rs. similarity_score r =
             of_nat (hit_pairs two_pages [''water'', ''harvest'', ''water'', ''soil''] (res_page_name r)) / 4)
        \<and> (\<forall>x\<in>set (page_scores two_pages_simple [''water'', ''harvest'', ''water'', ''soil'']).
             snd x = hit_pairs two_pages [''water'', ''harvest'', ''water'', ''soil''] (fst x))
        \<and> length rs = min 5 (length (page_scores two_pages_simple [''water'', ''harvest'', ''water'', ''soil''])))"
proof -
  have w: "split (lower ''Water harvest WATER soil'') = [''water'', ''harvest'', ''water'', ''soil'']"
    by code_simp
  have n: "two_pages \<noteq> []"
    by (simp add: two_pages_def)
  have h: "hit_pairs two_pages [''water'', ''harvest'', ''water'', ''soil''] ''irrigation'' = 2"
    "hit_pairs two_pages [''water'', ''harvest'', ''water'', ''soil''] ''yield'' = 1"
    by (simp_all add: hit_pairs_def two_pages_def page_record_def lower_def lower_char_def
        sublist_code prefix_code)
  have r: "predict_page_simple two_pages_simple ''Water harvest WATER soil'' =
       Inr [\<lparr>res_page_name = ''irrigation'', res_keyword = ''water'', similarity_score = 1 / 2, res_description = ''''\<rparr>,
            \<lparr>res_page_name = ''yield'', res_keyword = ''harvest'', similarity_score = 1 / 4, res_description = ''''\<rparr>]"
    unfolding predict_page_simple_def w
    by (simp add: eval_defs two_pages_simple_def)
  have "\<exists>rs. predict_page_simple two_pages_simple ''Water harvest WATER soil'' = Inr rs \<and> rs \<noteq> []
        \<and> (\<forall>r\<in>set rs. similarity_score r =
             of_nat (hit_pairs two_pages [''water'', ''harvest'', ''water'', ''soil''] (res_page_name r)) / 4)
        \<and> (\<forall>x\<in>set (page_scores two_pages_simple [''water'', ''harvest'', ''water'', ''soil'']).
             snd x = hit_pairs two_pages [''water'', ''harvest'', ''water'', ''soil''] (fst x))
        \<and> length rs = min 5 (length (page_scores two_pages_simple [''water'', ''harvest'', ''water'', ''soil'']))"
    using lexical_score_is_hit_ratio [OF two_pages_simple_loaded n, of "''Water harvest WATER soil''"]
    unfolding w by (elim exE conjE, intro exI conjI) simp_all
  then show ?thesis
    using two_pages_simple_loaded n w h r by blast
qed

subsection \<open>C7: pages without keywords\<close>

text \<open>
  C7. The claim: a page whose keyword list is empty is never the top prediction, under
  either matcher. Under the embedding matcher every result is a candidate, so its page has
  the reported keyword in its list: a page without keywords is in no result. Under the
  lexical matcher the same holds whenever some query word hits some keyword: every
  returned page then owns a keyword that is hit. Without any hit the lexical matcher
  returns the first five pages in catalog order, whatever their keyword lists, so a page
  without keywords that comes first in the catalog is the top prediction.
\<close>

theorem keywordless_page_not_predicted:
  "(TamilPagePredictor_init e kb = Inr p' \<and> predict_page sim argsort p' q = Inr rs' \<and> r' \<in> set rs' \<longrightarrow>
      (\<exists>f\<in>set kb. page_name f = Some (res_page_name r')
         \<and> (\<exists>kws. keywords_list f = Some kws \<and> res_keyword r' \<in> set kws)))
   \<and> (SimpleTamilPagePredictor_init s kb = Inr p \<and> any_match kb (split (lower q))
        \<and> predict_page_simple p q = Inr rs \<and> r \<in> set rs \<longrightarrow>
      (\<exists>f\<in>set kb. page_name f = Some (res_page_name r)
         \<and> (\<exists>kws. keywords_list f = Some kws
               \<and> (\<exists>k\<in>set kws. \<exists>w\<in>set (split (lower q)). word_matches w k))))
   \<and> (SimpleTamilPagePredictor_init s kb = Inr p \<and> \<not> any_match kb (split (lower q))
        \<and> predict_page_simple p q = Inr rs \<longrightarrow>
      map res_page_name rs = take 5 (catalog_order kb))"
proof (intro conjI impI)
  assume "TamilPagePredictor_init e kb = Inr p' \<and> predict_page sim argsort p' q = Inr rs' \<and> r' \<in> set rs'"
  then show "\<exists>f\<in>set kb. page_name f = Some (res_page_name r')
         \<and> (\<exists>kws. keywords_list f = Some kws \<and> res_keyword r' \<in> set kws)"
    using embedding_pairs_in_catalog by blast
next
  let ?ws = "split (lower q)"
  assume h: "SimpleTamilPagePredictor_init s kb = Inr p \<and> any_match kb ?ws
        \<and> predict_page_simple p q = Inr rs \<and> r \<in> set rs"
  then have l: "SimpleTamilPagePredictor_init s kb = Inr p" and m: "any_match kb ?ws"
    and rs: "predict_page_simple p q = Inr rs" and r: "r \<in> set rs" by auto
  from predict_simple_source [OF rs r] obtain x where
    x: "x \<in> set (page_scores p ?ws)" and res: "simple_result p ?ws x = Inr r" by blast
  have "fst x \<in> fst ` set (page_scores p ?ws)" using x by simp
  then have "0 < hit_pairs kb ?ws (fst x)"
    unfolding scored_pages_set [OF l m] by simp
  then have "0 < hits (entries kb) ?ws (res_page_name r)"
    using simple_result_fields(1) [OF res]
    by (simp add: hit_pairs_eq_hits [OF loaded_has_fields [OF l]])
  then obtain w en k where "w \<in> set ?ws" "en \<in> set (entries kb)" "fst en = res_page_name r"
    "k \<in> set (snd en)" "word_matches w k"
    unfolding hits_pos_iff by blast
  then show "\<exists>f\<in>set kb. page_name f = Some (res_page_name r)
         \<and> (\<exists>kws. keywords_list f = Some kws \<and> (\<exists>k\<in>set kws. \<exists>w\<in>set ?ws. word_matches w k))"
    using entries_name_in_catalog [of en kb] by auto
next
  assume "SimpleTamilPagePredictor_init s kb = Inr p \<and> \<not> any_match kb (split (lower q))
        \<and> predict_page_simple p q = Inr rs"
  then show "map res_page_name rs = take 5 (catalog_order kb)"
    using no_match_names by blast
qed

text \<open>
  C7, an instance of each of the three parts on the two-page catalog.
\<close>

theorem keywordless_page_not_predicted_witness:
  "TamilPagePredictor_init new_embedding two_pages = Inr two_pages_embedding
   \<and> predict_page overlap_sim stable_argsort two_pages_embedding ''heat'' =
       Inr [\<lparr>res_page_name = ''yield'', res_keyword = ''harvest'', similarity_score = 4, res_description = ''''\<rparr>,
            \<lparr>res_page_name = ''irrigation'', res_keyword = ''water'', similarity_score = 3, res_description = ''''\<rparr>]
   \<and> (\<exists>f\<in>set two_pages. page_name f = Some ''yield''
         \<and> (\<exists>kws. keywords_list f = Some kws \<and> ''harvest'' \<in> set kws))
   \<and> SimpleTamilPagePredictor_init new_simple two_pages = Inr two_pages_simple
   \<and> any_match two_pages (split (lower ''water''))
   \<and> predict_page_simple two_pages_simple ''water'' =
       Inr [\<lparr>res_page_name = ''irrigation'', res_keyword = ''water'', similarity_score = 1, res_description = ''''\<rparr>]
   \<and> (\<exists>f\<in>set two_pages. page_name f = Some ''irrigation''
         \<and> (\<exists>kws. keywords_list f = Some kws
               \<and> (\<exists>k\<in>set kws. \<exists>w\<in>set (split (lower ''water'')). word_matches w k)))
   \<and> \<not> any_match two_pages (split (lower ''soil test''))
   \<and> predict_page_simple two_pages_simple ''soil test'' =
       Inr [\<lparr>res_page_name = ''irrigation'', res_keyword = ''water'', similarity_score = 0, res_description = ''''\<rparr>,
            \<lparr>res_page_name = ''yield'', res_keyword = ''harvest'', similarity_score = 0, res_description = ''''\<rparr>]
   \<and> take 5 (catalog_order two_pages) = [''irrigation'', ''yield'']"
proof -
  let ?y = "\<lparr>res_page_name = ''yield'', res_keyword = ''harvest'', similarity_score = 4::int, res_description = ''''\<rparr>"
  let ?i = "\<lparr>res_page_name = ''irrigation'', res_keyword = ''water'', similarity_score = 3::int, res_description = ''''\<rparr>"
  let ?w = "\<lparr>res_page_name = ''irrigation'', res_keyword = ''water'', similarity_score = 1::rat, res_description = ''''\<rparr>"
  let ?iz = "\<lparr>res_page_name = ''irrigation'', res_keyword = ''water'', similarity_score = 0::rat, res_description = ''''\<rparr>"
  let ?yz = "\<lparr>res_page_name = ''yield'', res_keyword = ''harvest'', similarity_score = 0::rat, res_description = ''''\<rparr>"
  have e: "predict_page overlap_sim stable_argsort two_pages_embedding ''heat'' = Inr [?y, ?i]"
    by (simp add: eval_defs two_pages_embedding_def)
  have m: "any_match two_pages (split (lower ''water''))"
    by (simp add: eval_defs)
  have s: "predict_page_simple two_pages_simple ''water'' = Inr [?w]"
    by (simp add: eval_defs two_pages_simple_def)
  have n: "\<not> any_match two_pages (split (lower ''soil test''))"
    by (simp add: eval_defs)
  have z: "predict_page_simple two_pages_simple ''soil test'' = Inr [?iz, ?yz]"
    by (simp add: eval_defs two_pages_simple_def)
  note inst = keywordless_page_not_predicted [where kb = two_pages and e = new_embedding
      and p' = two_pages_embedding and sim = overlap_sim and argsort = stable_argsort and rs' = "[?y, ?i]" and r' = ?y
      and s = new_simple and p = two_pages_simple]
  have a: "\<exists>f\<in>set two_pages. page_name f = Some ''yield''
         \<and> (\<exists>kws. keywords_list f = Some kws \<and> ''harvest'' \<in> set kws)"
    using inst [where q = "''heat''"] two_pages_embedding_loaded e by simp
  have b: "\<exists>f\<in>set two_pages. page_name f = Some ''irrigation''
         \<and> (\<exists>kws. keywords_list f = Some kws
               \<and> (\<exists>k\<in>set kws. \<exists>w\<in>set (split (lower ''water'')). word_matches w k))"
    using inst [where q = "''water''" and rs = "[?w]" and r = ?w] two_pages_simple_loaded m s by simp
  have c: "take 5 (catalog_order two_pages) = [''irrigation'', ''yield'']"
    using inst [where q = "''soil test''" and rs = "[?iz, ?yz]"] two_pages_simple_loaded n z by simp
  show ?thesis
    using a b c e m s n z two_pages_simple_loaded two_pages_embedding_loaded by blast
qed

text \<open>
  C7, the claim as stated fails: the page without keywords is the first result of a query
  that hits nothing.
\<close>

theorem keywordless_first_page_is_top_prediction:
  "\<not> any_match [page_record ''unused'' [], page_record ''yield'' [''harvest'']] (split (lower ''rain''))
   \<and> simple_predictions new_simple [page_record ''unused'' [], page_record ''yield'' [''harvest'']] ''rain'' =
       Inr [\<lparr>res_page_name = ''unused'', res_keyword = '''', similarity_score = 0, res_description = ''''\<rparr>,
            \<lparr>res_page_name = ''yield'', res_keyword = ''harvest'', similarity_score = 0, res_description = ''''\<rparr>]"
  by (simp add: eval_defs)

subsection \<open>C8: the reported keyword\<close>

text \<open>
  C8. The claim: the keyword reported for a page is its first keyword that stands in
  substring containment with some query word, in either direction, and its first keyword
  if there is none. The scoring loop tests both directions, but the search for the
  reported keyword tests only \<^verbatim>\<open>word in keyword.lower()\<close>. At the input below the
  keyword \<^verbatim>\<open>crop\<close> is inside the query word \<^verbatim>\<open>crops\<close> and earns the page its score,
  \<^verbatim>\<open>soil\<close> stands in no containment with it, and the keyword reported is \<^verbatim>\<open>soil\<close>.
\<close>

theorem matching_keyword_ignores_keyword_inside_word:
  "word_matches ''crops'' ''crop'' \<and> \<not> word_matches ''crops'' ''soil''
   \<and> simple_predictions new_simple [page_record ''advice'' [''soil'', ''crop'']] ''crops'' =
       Inr [\<lparr>res_page_name = ''advice'', res_keyword = ''soil'', similarity_score = 1, res_description = ''''\<rparr>]"
  by (simp add: eval_defs)

subsection \<open>C9: prediction is a function of the catalog and the query\<close>

text \<open>
  C9. Building the index twice from the same catalog and predicting for the same query
  gives the same output. The constructors overwrite every field of the object they run on,
  so whatever the two objects held before, the loaded predictors (or the error) are equal,
  and so are their predictions. For the embedding matcher this is relative to the encoder
  and \<^verbatim>\<open>np.argsort\<close> being functions of their arguments, which is what the parameters
  \<open>sim\<close> and \<open>argsort\<close> stand for.
\<close>

theorem prediction_depends_on_catalog_and_query_only:
  "SimpleTamilPagePredictor_init s1 kb = SimpleTamilPagePredictor_init s2 kb
   \<and> simple_predictions s1 kb q = simple_predictions s2 kb q
   \<and> TamilPagePredictor_init e1 kb = TamilPagePredictor_init e2 kb
   \<and> embedding_predictions sim argsort e1 kb q = embedding_predictions sim argsort e2 kb q"
proof -
  have a: "SimpleTamilPagePredictor_init s1 kb = SimpleTamilPagePredictor_init s2 kb"
  proof (cases "list_all has_fields kb")
    case True
    have "SimpleTamilPagePredictor_init s kb =
          Inr \<lparr>knowledge_base = kb,
               keyword_to_page = fold (\<lambda>e. add_keywords (fst e) (snd e)) (entries kb) [],
               page_keywords = fold (\<lambda>e. dict_set (fst e) (snd e)) (entries kb) []\<rparr>" for s
      unfolding simple_init_Inr using True by (cases s) simp
    then show ?thesis by simp
  next
    case False
    then have "SimpleTamilPagePredictor_init s kb = Inl KeyError" for s
      by (simp add: simple_init_Inl)
    then show ?thesis by simp
  qed
  have b: "TamilPagePredictor_init e1 kb = TamilPagePredictor_init e2 kb"
  proof (cases "list_all has_fields kb")
    case True
    have "TamilPagePredictor_init e kb =
          Inr \<lparr>knowledge_base = kb,
               candidates = map fst (candidate_pairs kb),
               candidate_texts = map snd (candidate_pairs kb)\<rparr>" for e
      unfolding emb_init_Inr using True by (cases e) simp
    then show ?thesis by simp
  next
    case False
    then have "TamilPagePredictor_init e kb = Inl KeyError" for e
      by (simp add: emb_init_Inl)
    then show ?thesis by simp
  qed
  show ?thesis
    using a b by (simp add: simple_predictions_def embedding_predictions_def)
qed

subsection \<open>C10: with a hit, only pages with a hit are returned\<close>

text \<open>
  C10. Whenever some query word hits some keyword, the lexical matcher returns a non-empty
  list of pages with at least one hit each, no page twice; pages without a hit are left
  out, and the number of results is the number of pages with a hit, or five if there are
  more. So the list can have fewer than five entries although the catalog has five pages
  or more.
\<close>

theorem lexical_results_are_hit_pages:
  assumes "SimpleTamilPagePredictor_init s kb = Inr p"
    and "any_match kb (split (lower q))"
  shows "\<exists>rs. predict_page_simple p q = Inr rs \<and> rs \<noteq> []
    \<and> distinct (map res_page_name rs)
    \<and> (\<forall>r\<in>set rs. 0 < hit_pairs kb (split (lower q)) (res_page_name r))
    \<and> finite {name. 0 < hit_pairs kb (split (lower q)) name}
    \<and> length rs = min 5 (card {name. 0 < hit_pairs kb (split (lower q)) name})"
proof -
  let ?ws = "split (lower q)"
  let ?ps = "page_scores p ?ws"
  obtain rs where rs: "predict_page_simple p q = Inr rs"
    using predict_simple_total [OF assms(1)] by blast
  have names: "map res_page_name rs = map fst (take 5 (sorted_pages ?ps))"
    by (rule predict_simple_names [OF rs])
  have keys: "fst ` set ?ps = {name. 0 < hit_pairs kb ?ws name}"
    by (rule scored_pages_set [OF assms])
  have d: "distinct (map fst ?ps)"
    by (rule distinct_page_scores [OF assms(1)])
  then have "distinct (take 5 (map fst (sorted_pages ?ps)))"
    by (intro distinct_take) (simp add: distinct_sorted_pages)
  then have dist: "distinct (map res_page_name rs)"
    unfolding names by (simp add: take_map)
  have hit: "0 < hit_pairs kb ?ws (res_page_name r)" if "r \<in> set rs" for r
  proof -
    have "res_page_name r \<in> set (map res_page_name rs)" using that by simp
    then have "res_page_name r \<in> fst ` set ?ps"
      unfolding names using set_sorted_pages [of ?ps] by (auto dest!: in_set_takeD)
    then show ?thesis unfolding keys by simp
  qed
  have fin: "finite {name. 0 < hit_pairs kb ?ws name}"
    unfolding keys [symmetric] by simp
  have "length ?ps = card (set (map fst ?ps))"
    using distinct_card [OF d] by simp
  then have card: "length ?ps = card {name. 0 < hit_pairs kb ?ws name}"
    using keys by simp
  have len: "length rs = min 5 (card {name. 0 < hit_pairs kb ?ws name})"
    using length_predict_simple [OF rs] card by simp
  obtain name where "0 < hit_pairs kb ?ws name"
    using assms(2) unfolding any_match_iff_hits
    by (auto simp: hit_pairs_eq_hits [OF loaded_has_fields [OF assms(1)]])
  then have "card {name. 0 < hit_pairs kb ?ws name} \<noteq> 0"
    using fin by auto
  then have "rs \<noteq> []" using len by auto
  then show ?thesis using rs dist hit fin len by blast
qed

text \<open>
  C10, an instance: six pages, two of them with a hit, two results.
\<close>

theorem lexical_results_are_hit_pages_witness:
  "SimpleTamilPagePredictor_init new_simple six_pages = Inr six_pages_simple
   \<and> any_match six_pages (split (lower ''fox and bee''))
   \<and> length six_pages = 6
   \<and> result_pages (predict_page_simple six_pages_simple ''fox and bee'') = [''f'', ''b'']
   \<and> (\<exists>rs. predict_page_simple six_pages_simple ''fox and bee'' = Inr rs \<and> rs \<noteq> []
        \<and> distinct (map res_page_name rs)
        \<and> (\<forall>r\<in>set rs. 0 < hit_pairs six_pages (split (lower ''fox and bee'')) (res_page_name r))
        \<and> length rs = min 5 (card {name. 0 < hit_pairs six_pages (split (lower ''fox and bee'')) name}))"
proof -
  have m: "any_match six_pages (split (lower ''fox and bee''))"
    by (simp add: eval_defs)
  have r: "result_pages (predict_page_simple six_pages_simple ''fox and bee'') = [''f'', ''b'']"
    by (simp add: eval_defs six_pages_simple_def)
  have n: "length six_pages = 6"
    by (simp add: six_pages_def)
  show ?thesis
    using lexical_results_are_hit_pages [OF six_pages_simple_loaded m] six_pages_simple_loaded m r n
    by blast
qed


end
